theory Spec2Isabelle
  imports Main "HOL-Library.List_Lexorder" "HOL-Library.Char_ord"
begin

text \<open>
  A model of \<^verbatim>\<open>kedro_datasets/ibis/file_dataset.py\<close>: the \<^verbatim>\<open>FileDataset\<close> class, its
  process-wide connection cache and its load, save, describe and exists operations.
\<close>

section \<open>Python values\<close>

text \<open>
  The exceptions the modelled code can raise. \<open>DatasetError\<close> is kedro's dataset error
  (the versioning layer's "version not found" error is a subclass of it and is caught by
  the same \<^verbatim>\<open>except DatasetError\<close>); \<open>BackendError\<close> stands for any exception raised
  inside an Ibis backend.
\<close>

datatype error = TypeError | KeyError | AttributeError | DatasetError
  | FileExistsError | FileNotFoundError | NotADirectoryError | BackendError

text \<open>
  The values a connection configuration or an argument map can hold. A \<open>PDict\<close> keeps its
  items in insertion order, as a Python dict does; keys are strings (the configuration is
  typed \<^verbatim>\<open>dict[str, Any]\<close> and is splatted as keyword arguments). Floats are not modelled.
\<close>

datatype pyval = PNone | PBool bool | PInt int | PStr string
  | PList "pyval list" | PTuple "pyval list" | PDict "(string \<times> pyval) list"

text \<open>
  Python's \<^verbatim>\<open>==\<close> on these values: \<^verbatim>\<open>True == 1\<close>, lists and tuples compare element-wise
  and never equal each other, dicts compare without regard to insertion order. Two values
  are equal exactly when their canonical forms coincide.
\<close>

fun canon :: "pyval \<Rightarrow> pyval" where
  "canon (PBool b) = PInt (if b then 1 else 0)"
| "canon (PList xs) = PList (map canon xs)"
| "canon (PTuple xs) = PTuple (map canon xs)"
| "canon (PDict items) = PDict (sort_key fst (map (\<lambda>(k, v). (k, canon v)) items))"
| "canon v = v"

definition py_eq :: "pyval \<Rightarrow> pyval \<Rightarrow> bool" where
  "py_eq a b = (canon a = canon b)"

text \<open>
  Python's \<^verbatim>\<open><\<close>: numbers by value, strings and sequences lexicographically, and a
  \<^verbatim>\<open>TypeError\<close> for \<^verbatim>\<open>None\<close>, dicts and mixed types.
\<close>

fun py_lt :: "pyval \<Rightarrow> pyval \<Rightarrow> error + bool"
  and py_lt_seq :: "pyval list \<Rightarrow> pyval list \<Rightarrow> error + bool" where
  "py_lt (PBool a) (PBool b) = Inr (a < b)"
| "py_lt (PBool a) (PInt j) = Inr ((if a then 1 else 0) < j)"
| "py_lt (PInt i) (PBool b) = Inr (i < (if b then 1 else 0))"
| "py_lt (PInt i) (PInt j) = Inr (i < j)"
| "py_lt (PStr s) (PStr t) = Inr (s < t)"
| "py_lt (PList xs) (PList ys) = py_lt_seq xs ys"
| "py_lt (PTuple xs) (PTuple ys) = py_lt_seq xs ys"
| "py_lt _ _ = Inl TypeError"
| "py_lt_seq [] [] = Inr False"
| "py_lt_seq [] (y # ys) = Inr True"
| "py_lt_seq (x # xs) [] = Inr False"
| "py_lt_seq (x # xs) (y # ys) = (if py_eq x y then py_lt_seq xs ys else py_lt x y)"

type_synonym item = "string \<times> pyval"

section \<open>The cache key: \<^verbatim>\<open>hashable\<close>\<close>

text \<open>
  \<^verbatim>\<open>sorted(value.items())\<close> compares \<^verbatim>\<open>(key, value)\<close> tuples: the first components decide
  unless they are equal, and only then are the values compared (which may raise).
  \<open>py_sorted\<close> is the stable sort by that comparison.
\<close>

definition item_lt :: "item \<Rightarrow> item \<Rightarrow> error + bool" where
  "item_lt a b =
     (if fst a \<noteq> fst b then Inr (fst a < fst b)
      else if \<not> py_eq (snd a) (snd b) then py_lt (snd a) (snd b)
      else Inr False)"

fun insort_item :: "item \<Rightarrow> item list \<Rightarrow> error + item list" where
  "insort_item x [] = Inr [x]"
| "insort_item x (y # ys) =
     (case item_lt y x of
        Inl e \<Rightarrow> Inl e
      | Inr True \<Rightarrow> (case insort_item x ys of Inl e \<Rightarrow> Inl e | Inr zs \<Rightarrow> Inr (y # zs))
      | Inr False \<Rightarrow> Inr (x # y # ys))"

fun py_sorted :: "item list \<Rightarrow> error + item list" where
  "py_sorted [] = Inr []"
| "py_sorted (x # xs) =
     (case py_sorted xs of Inl e \<Rightarrow> Inl e | Inr ys \<Rightarrow> insort_item x ys)"

text \<open>A size measure for the termination of \<open>hashable\<close>, which recurses through the sorted items.\<close>

fun vsize :: "pyval \<Rightarrow> nat" where
  "vsize (PList xs) = Suc (sum_list (map (\<lambda>x. Suc (vsize x)) xs))"
| "vsize (PTuple xs) = Suc (sum_list (map (\<lambda>x. Suc (vsize x)) xs))"
| "vsize (PDict items) = Suc (sum_list (map (\<lambda>(k, v). Suc (vsize v)) items))"
| "vsize v = 0"

definition isize :: "item list \<Rightarrow> nat" where
  "isize items = sum_list (map (\<lambda>(k, v). Suc (vsize v)) items)"

lemma isize_simps [simp]:
  "isize [] = 0" "isize ((k, v) # its) = Suc (vsize v) + isize its"
  by (simp_all add: isize_def)

lemma insort_item_isize:
  "insort_item x ys = Inr zs \<Longrightarrow> isize zs = isize [x] + isize ys"
  by (induction ys arbitrary: zs)
     (auto simp: isize_def split: sum.splits bool.splits)

lemma py_sorted_isize: "py_sorted xs = Inr ys \<Longrightarrow> isize ys = isize xs"
proof (induction xs arbitrary: ys)
  case Nil
  then show ?case by simp
next
  case (Cons x xs)
  then show ?case
    by (cases x) (auto split: sum.splits dest!: insort_item_isize)
qed

text \<open>
  \<^verbatim>\<open>
  def hashable(value):
      if isinstance(value, dict):
          return tuple((k, hashable(v)) for k, v in sorted(value.items()))
      if isinstance(value, list):
          return tuple(hashable(x) for x in value)
      return value
  \<close>
\<close>

function hashable :: "pyval \<Rightarrow> error + pyval"
  and hashable_items :: "item list \<Rightarrow> error + pyval list"
  and hashable_seq :: "pyval list \<Rightarrow> error + pyval list" where
  "hashable (PDict items) =
     (case py_sorted items of
        Inl e \<Rightarrow> Inl e
      | Inr its \<Rightarrow> (case hashable_items its of Inl e \<Rightarrow> Inl e | Inr ps \<Rightarrow> Inr (PTuple ps)))"
| "hashable (PList xs) =
     (case hashable_seq xs of Inl e \<Rightarrow> Inl e | Inr ys \<Rightarrow> Inr (PTuple ys))"
| "hashable PNone = Inr PNone"
| "hashable (PBool b) = Inr (PBool b)"
| "hashable (PInt i) = Inr (PInt i)"
| "hashable (PStr s) = Inr (PStr s)"
| "hashable (PTuple xs) = Inr (PTuple xs)"
| "hashable_items [] = Inr []"
| "hashable_items ((k, v) # its) =
     (case hashable v of
        Inl e \<Rightarrow> Inl e
      | Inr hv \<Rightarrow> (case hashable_items its of
                    Inl e \<Rightarrow> Inl e
                  | Inr ps \<Rightarrow> Inr (PTuple [PStr k, hv] # ps)))"
| "hashable_seq [] = Inr []"
| "hashable_seq (x # xs) =
     (case hashable x of
        Inl e \<Rightarrow> Inl e
      | Inr hx \<Rightarrow> (case hashable_seq xs of Inl e \<Rightarrow> Inl e | Inr ys \<Rightarrow> Inr (hx # ys)))"
  by pat_completeness auto
termination
  by (relation "measure (\<lambda>x. case x of
         Inl v \<Rightarrow> 2 * vsize v
       | Inr (Inl its) \<Rightarrow> 2 * isize its + 1
       | Inr (Inr xs) \<Rightarrow> 2 * sum_list (map (\<lambda>x. Suc (vsize x)) xs) + 1)")
     (auto simp: isize_def[symmetric] dest: py_sorted_isize)

text \<open>
  The normalization as the specification words it: a dict becomes the tuple of
  (key, normalized value) pairs sorted by key, a list becomes the tuple of its normalized
  elements, any other value is returned unchanged.
\<close>

fun spec_normalize :: "pyval \<Rightarrow> pyval" where
  "spec_normalize (PDict items) =
     PTuple (map (\<lambda>(k, v). PTuple [PStr k, spec_normalize v]) (sort_key fst items))"
| "spec_normalize (PList xs) = PTuple (map spec_normalize xs)"
| "spec_normalize v = v"

text \<open>A Python dict never holds the same key twice.\<close>

fun wf_val :: "pyval \<Rightarrow> bool" where
  "wf_val (PDict items) = (distinct (map fst items) \<and> list_all (\<lambda>(k, v). wf_val v) items)"
| "wf_val (PList xs) = list_all wf_val xs"
| "wf_val (PTuple xs) = list_all wf_val xs"
| "wf_val v = True"

text \<open>
  \<^verbatim>\<open>key not in cls._connections\<close> hashes the key: lists and dicts are unhashable, a tuple is
  hashable when all its elements are.
\<close>

fun is_hashable :: "pyval \<Rightarrow> bool" where
  "is_hashable (PList xs) = False"
| "is_hashable (PDict items) = False"
| "is_hashable (PTuple xs) = list_all is_hashable xs"
| "is_hashable v = True"

section \<open>Program state\<close>

text \<open>
  Dict objects live in a store, so that two names can refer to the same dict: \<open>dicts\<close> maps
  the address of a dict object to its entries, each entry binding a key to the address of a
  value object, and \<open>objs\<close> gives the current content of a value object. \<open>next_addr\<close> is the
  allocation counter; backend handles are objects too and take their identity from it.
  \<open>connections\<close> is the class attribute \<^verbatim>\<open>FileDataset._connections\<close>, \<open>fs\<close> the file system,
  and \<open>trace\<close> the calls made to the backend and to the file system, in order.
\<close>

type_synonym addr = nat
type_synonym path = "string list"
type_synonym table = nat
type_synonym entries = "(string \<times> addr) list"
datatype kind = File | Dir

type_synonym filesystem = "path \<Rightarrow> kind option"
type_synonym Version = "string option \<times> string option"

datatype event =
    Connect string "item list" addr
  | Mkdir path
  | ReadCall addr string path "string option" "item list"
  | WriteCall addr string table path "item list"

record state =
  dicts :: "addr \<Rightarrow> entries"
  objs :: "addr \<Rightarrow> pyval"
  next_addr :: addr
  connections :: "(pyval \<times> addr) list"
  fs :: filesystem
  trace :: "event list"

record FileDataset =
  filepath :: path
  file_format :: string
  table_name :: "string option"
  connection_config :: addr
  load_args :: addr
  save_args :: addr
  version :: "Version option"
  metadata :: "addr option"

text \<open>
  The external collaborators: the \<^verbatim>\<open>ibis\<close> module (\<^verbatim>\<open>getattr(ibis, name)\<close> gives a backend
  whose \<^verbatim>\<open>connect\<close> either raises or returns a new backend object), kedro's versioning
  resolver (\<^verbatim>\<open>_get_load_path\<close>, \<^verbatim>\<open>_get_save_path\<close>), and the methods found on a backend
  object by \<^verbatim>\<open>getattr\<close>.
\<close>

record env =
  ibis :: "string \<Rightarrow> (item list \<Rightarrow> error option) option"
  get_load_path :: "path \<Rightarrow> Version option \<Rightarrow> filesystem \<Rightarrow> error + path"
  get_save_path :: "path \<Rightarrow> Version option \<Rightarrow> filesystem \<Rightarrow> error + path"
  reader :: "addr \<Rightarrow> string \<Rightarrow>
    (path \<Rightarrow> string option \<Rightarrow> item list \<Rightarrow> filesystem \<Rightarrow> error + table) option"
  writer :: "addr \<Rightarrow> string \<Rightarrow>
    (table \<Rightarrow> path \<Rightarrow> item list \<Rightarrow> filesystem \<Rightarrow> error + filesystem) option"

text \<open>The class attributes are dict objects at fixed addresses; \<open>class_state\<close> is the state
  right after the class body has run.\<close>

definition DEFAULT_CONNECTION_CONFIG :: addr where
  "DEFAULT_CONNECTION_CONFIG = 0"

definition DEFAULT_LOAD_ARGS :: addr where
  "DEFAULT_LOAD_ARGS = 1"

definition DEFAULT_SAVE_ARGS :: addr where
  "DEFAULT_SAVE_ARGS = 2"

definition class_state :: "filesystem \<Rightarrow> state" where
  "class_state f =
     \<lparr>dicts = (\<lambda>a. if a = DEFAULT_CONNECTION_CONFIG
                       then [(''backend'', 3), (''database'', 4)] else []),
      objs = (\<lambda>a. if a = 3 then PStr ''duckdb''
                      else if a = 4 then PStr '':memory:'' else PNone),
      next_addr = 5,
      connections = [],
      fs = f,
      trace = []\<rparr>"

definition view :: "state \<Rightarrow> addr \<Rightarrow> item list" where
  "view s d = map (\<lambda>(k, a). (k, objs s a)) (dicts s d)"

text \<open>\<^verbatim>\<open>d[k] = a\<close>, \<^verbatim>\<open>d.update(other)\<close>, \<^verbatim>\<open>d.pop(k)\<close> and \<^verbatim>\<open>copy.deepcopy(d)\<close>.\<close>

fun dict_set :: "entries \<Rightarrow> string \<Rightarrow> addr \<Rightarrow> entries" where
  "dict_set [] k a = [(k, a)]"
| "dict_set ((k', a') # es) k a =
     (if k' = k then (k', a) # es else (k', a') # dict_set es k a)"

definition dict_update :: "entries \<Rightarrow> entries \<Rightarrow> entries" where
  "dict_update d other = foldl (\<lambda>acc (k, a). dict_set acc k a) d other"

definition dict_pop :: "addr \<Rightarrow> string \<Rightarrow> state \<Rightarrow> error + addr \<times> state" where
  "dict_pop d k s =
     (case map_of (dicts s d) k of
        None \<Rightarrow> Inl KeyError
      | Some a \<Rightarrow>
          Inr (a, s\<lparr>dicts := (dicts s)(d := filter (\<lambda>(k', a'). k' \<noteq> k) (dicts s d))\<rparr>))"

fun copy_entries :: "(addr \<times> addr) list \<Rightarrow> entries \<Rightarrow> state \<Rightarrow> entries \<times> state" where
  "copy_entries memo [] s = ([], s)"
| "copy_entries memo ((k, a) # es) s =
     (case map_of memo a of
        Some n \<Rightarrow>
          (case copy_entries memo es s of (es', s') \<Rightarrow> ((k, n) # es', s'))
      | None \<Rightarrow>
          (case copy_entries ((a, next_addr s) # memo) es
                  (s\<lparr>objs := (objs s)(next_addr s := objs s a),
                     next_addr := Suc (next_addr s)\<rparr>) of
             (es', s') \<Rightarrow> ((k, next_addr s) # es', s')))"

definition deepcopy :: "addr \<Rightarrow> state \<Rightarrow> addr \<times> state" where
  "deepcopy d s =
     (case copy_entries [] (dicts s d) s of
        (es, s1) \<Rightarrow>
          (next_addr s1,
           s1\<lparr>dicts := (dicts s1)(next_addr s1 := es), next_addr := Suc (next_addr s1)\<rparr>))"

section \<open>The dataset\<close>

text \<open>
  \<^verbatim>\<open>
  self._connection_config = connection or self.DEFAULT_CONNECTION_CONFIG
  ...
  self._load_args = deepcopy(self.DEFAULT_LOAD_ARGS)
  if load_args is not None:
      self._load_args.update(load_args)
  self._save_args = deepcopy(self.DEFAULT_SAVE_ARGS)
  if save_args is not None:
      self._save_args.update(save_args)
  \<close>
  A dict is falsy exactly when it is empty.
\<close>

definition FileDataset_init ::
  "path \<Rightarrow> string \<Rightarrow> string option \<Rightarrow> addr option \<Rightarrow> addr option \<Rightarrow> addr option \<Rightarrow>
   Version option \<Rightarrow> addr option \<Rightarrow> state \<Rightarrow> FileDataset \<times> state" where
  "FileDataset_init fp fmt tn conn largs sargs ver meta s =
     (let cfg = (case conn of
                   None \<Rightarrow> DEFAULT_CONNECTION_CONFIG
                 | Some c \<Rightarrow> if dicts s c = [] then DEFAULT_CONNECTION_CONFIG else c);
          (la, s1) = deepcopy DEFAULT_LOAD_ARGS s;
          s2 = (case largs of
                  None \<Rightarrow> s1
                | Some a \<Rightarrow> s1\<lparr>dicts := (dicts s1)(la := dict_update (dicts s1 la) (dicts s1 a))\<rparr>);
          (sa, s3) = deepcopy DEFAULT_SAVE_ARGS s2;
          s4 = (case sargs of
                  None \<Rightarrow> s3
                | Some a \<Rightarrow> s3\<lparr>dicts := (dicts s3)(sa := dict_update (dicts s3 sa) (dicts s3 a))\<rparr>)
      in (\<lparr>filepath = fp, file_format = fmt, table_name = tn, connection_config = cfg,
           load_args = la, save_args = sa, version = ver, metadata = meta\<rparr>, s4))"

text \<open>
  Lookup in \<^verbatim>\<open>_connections\<close> compares the stored keys with Python's equality.
  \<open>connect_backend\<close> is the body of the branch taken when the key is absent; \<open>connection\<close> is
  the property.
\<close>

definition reg_lookup :: "(pyval \<times> addr) list \<Rightarrow> pyval \<Rightarrow> addr option" where
  "reg_lookup reg key = map_option snd (find (\<lambda>(k, h). py_eq k key) reg)"

definition connect_backend :: "env \<Rightarrow> pyval \<Rightarrow> addr \<Rightarrow> state \<Rightarrow> (error + addr) \<times> state" where
  "connect_backend e key d s =
     (case deepcopy d s of
        (config, s1) \<Rightarrow>
          (case dict_pop config ''backend'' s1 of
             Inl err \<Rightarrow> (Inl err, s1)
           | Inr (b, s2) \<Rightarrow>
               (case objs s2 b of
                  PStr name \<Rightarrow>
                    (case ibis e name of
                       None \<Rightarrow> (Inl AttributeError, s2)
                     | Some connect \<Rightarrow>
                         (case connect (view s2 config) of
                            Some err \<Rightarrow> (Inl err, s2)
                          | None \<Rightarrow>
                              (Inr (next_addr s2),
                               s2\<lparr>next_addr := Suc (next_addr s2),
                                  connections := connections s2 @ [(key, next_addr s2)],
                                  trace := trace s2 @
                                    [Connect name (view s2 config) (next_addr s2)]\<rparr>)))
                | _ \<Rightarrow> (Inl TypeError, s2))))"

definition connection :: "env \<Rightarrow> FileDataset \<Rightarrow> state \<Rightarrow> (error + addr) \<times> state" where
  "connection e self s =
     (case hashable (PDict (view s (connection_config self))) of
        Inl err \<Rightarrow> (Inl err, s)
      | Inr key \<Rightarrow>
          if \<not> is_hashable key then (Inl TypeError, s)
          else (case reg_lookup (connections s) key of
                  Some h \<Rightarrow> (Inr h, s)
                | None \<Rightarrow>
                    (case connect_backend e key (connection_config self) s of
                       (Inl err, s') \<Rightarrow> (Inl err, s')
                     | (Inr h, s') \<Rightarrow>
                         (case reg_lookup (connections s') key of
                            Some h' \<Rightarrow> (Inr h', s')
                          | None \<Rightarrow> (Inl KeyError, s')))))"

definition load :: "env \<Rightarrow> FileDataset \<Rightarrow> state \<Rightarrow> (error + table) \<times> state" where
  "load e self s =
     (case get_load_path e (filepath self) (version self) (fs s) of
        Inl err \<Rightarrow> (Inl err, s)
      | Inr load_path \<Rightarrow>
          (case connection e self s of
             (Inl err, s1) \<Rightarrow> (Inl err, s1)
           | (Inr h, s1) \<Rightarrow>
               (case reader e h (''read_'' @ file_format self) of
                  None \<Rightarrow> (Inl AttributeError, s1)
                | Some rd \<Rightarrow>
                    (rd load_path (table_name self) (view s1 (load_args self)) (fs s1),
                     s1\<lparr>trace := trace s1 @
                          [ReadCall h (''read_'' @ file_format self) load_path
                             (table_name self) (view s1 (load_args self))]\<rparr>))))"

text \<open>
  \<^verbatim>\<open>Path(save_path).parent.mkdir(parents=True, exist_ok=True)\<close>, after pathlib: try
  \<^verbatim>\<open>os.mkdir\<close>; when the parent is missing, create the parent first and try again; when
  another error is raised, accept it if the path is a directory. The empty path is the
  root of the path (or the working directory), which always exists.
\<close>

definition fs_kind :: "filesystem \<Rightarrow> path \<Rightarrow> kind option" where
  "fs_kind f p = (if p = [] then Some Dir else f p)"

definition path_exists :: "filesystem \<Rightarrow> path \<Rightarrow> bool" where
  "path_exists f p = (fs_kind f p \<noteq> None)"

definition os_mkdir :: "filesystem \<Rightarrow> path \<Rightarrow> error + filesystem" where
  "os_mkdir f p =
     (if path_exists f p then Inl FileExistsError
      else (case fs_kind f (butlast p) of
              None \<Rightarrow> Inl FileNotFoundError
            | Some File \<Rightarrow> Inl NotADirectoryError
            | Some Dir \<Rightarrow> Inr (f(p \<mapsto> Dir))))"

definition mkdir_exist_ok :: "filesystem \<Rightarrow> path \<Rightarrow> error + filesystem" where
  "mkdir_exist_ok f p =
     (case os_mkdir f p of
        Inr f' \<Rightarrow> Inr f'
      | Inl err \<Rightarrow>
          if err = FileNotFoundError then Inl err
          else if fs_kind f p = Some Dir then Inr f else Inl err)"

function mkdir_parents :: "filesystem \<Rightarrow> path \<Rightarrow> error + filesystem" where
  "mkdir_parents f p =
     (case os_mkdir f p of
        Inr f' \<Rightarrow> Inr f'
      | Inl err \<Rightarrow>
          if err = FileNotFoundError then
            (if butlast p = p then Inl err
             else (case mkdir_parents f (butlast p) of
                     Inl err' \<Rightarrow> Inl err'
                   | Inr f1 \<Rightarrow> mkdir_exist_ok f1 p))
          else if fs_kind f p = Some Dir then Inr f else Inl err)"
  by pat_completeness auto
termination
proof (relation "measure (\<lambda>(f, p). length p)")
  show "wf (measure (\<lambda>(f, p). length p))" by simp
next
  fix f :: filesystem and p :: path and x1 :: error
  assume "butlast p \<noteq> p"
  then have "p \<noteq> []" by auto
  then show "((f, butlast p), (f, p)) \<in> measure (\<lambda>(f, p). length p)" by simp
qed

definition save :: "env \<Rightarrow> FileDataset \<Rightarrow> table \<Rightarrow> state \<Rightarrow> (error + unit) \<times> state" where
  "save e self data s =
     (case get_save_path e (filepath self) (version self) (fs s) of
        Inl err \<Rightarrow> (Inl err, s)
      | Inr save_path \<Rightarrow>
          (case mkdir_parents (fs s) (butlast save_path) of
             Inl err \<Rightarrow> (Inl err, s)
           | Inr f1 \<Rightarrow>
               (case connection e self
                       (s\<lparr>fs := f1, trace := trace s @ [Mkdir (butlast save_path)]\<rparr>) of
                  (Inl err, s1) \<Rightarrow> (Inl err, s1)
                | (Inr h, s1) \<Rightarrow>
                    (case writer e h (''to_'' @ file_format self) of
                       None \<Rightarrow> (Inl AttributeError, s1)
                     | Some wr \<Rightarrow>
                         (case wr data save_path (view s1 (save_args self)) (fs s1) of
                            Inl err \<Rightarrow>
                              (Inl err,
                               s1\<lparr>trace := trace s1 @
                                    [WriteCall h (''to_'' @ file_format self) data save_path
                                       (view s1 (save_args self))]\<rparr>)
                          | Inr f2 \<Rightarrow>
                              (Inr (),
                               s1\<lparr>fs := f2,
                                  trace := trace s1 @
                                    [WriteCall h (''to_'' @ file_format self) data save_path
                                       (view s1 (save_args self))]\<rparr>))))))"

datatype dval = DPath path | DStr string | DOptStr "string option" | DVal pyval
  | DDict addr | DVersion "Version option"

definition describe ::
  "FileDataset \<Rightarrow> state \<Rightarrow> (error + (string \<times> dval) list) \<times> state" where
  "describe self s =
     (case map_of (dicts s (connection_config self)) ''backend'' of
        None \<Rightarrow> (Inl KeyError, s)
      | Some b \<Rightarrow>
          (Inr [(''filepath'', DPath (filepath self)),
                (''file_format'', DStr (file_format self)),
                (''table_name'', DOptStr (table_name self)),
                (''backend'', DVal (objs s b)),
                (''load_args'', DDict (load_args self)),
                (''save_args'', DDict (save_args self)),
                (''version'', DVersion (version self))], s))"

definition exists_dataset :: "env \<Rightarrow> FileDataset \<Rightarrow> state \<Rightarrow> (error + bool) \<times> state" where
  "exists_dataset e self s =
     (case get_load_path e (filepath self) (version self) (fs s) of
        Inl err \<Rightarrow> if err = DatasetError then (Inr False, s) else (Inl err, s)
      | Inr load_path \<Rightarrow> (Inr (path_exists (fs s) load_path), s))"

text \<open>
  Everything that can happen during the life of the process: the operations of the class,
  and what the callers and the environment do to the store and the file system.
\<close>

datatype op =
    Op_init path string "string option" "addr option" "addr option" "addr option"
      "Version option" "addr option"
  | Op_connection FileDataset
  | Op_load FileDataset
  | Op_save FileDataset table
  | Op_describe FileDataset
  | Op_exists FileDataset
  | Op_new_dict "item list"
  | Op_set_dict addr entries
  | Op_set_obj addr pyval
  | Op_set_fs filesystem

fun new_entries :: "item list \<Rightarrow> state \<Rightarrow> entries \<times> state" where
  "new_entries [] s = ([], s)"
| "new_entries ((k, v) # its) s =
     (case new_entries its (s\<lparr>objs := (objs s)(next_addr s := v),
                               next_addr := Suc (next_addr s)\<rparr>) of
        (es, s') \<Rightarrow> ((k, next_addr s) # es, s'))"

definition new_dict :: "item list \<Rightarrow> state \<Rightarrow> addr \<times> state" where
  "new_dict its s =
     (case new_entries its s of
        (es, s1) \<Rightarrow>
          (next_addr s1,
           s1\<lparr>dicts := (dicts s1)(next_addr s1 := es), next_addr := Suc (next_addr s1)\<rparr>))"

fun exec :: "env \<Rightarrow> op \<Rightarrow> state \<Rightarrow> state" where
  "exec e (Op_init fp fmt tn conn largs sargs ver meta) s =
     snd (FileDataset_init fp fmt tn conn largs sargs ver meta s)"
| "exec e (Op_connection self) s = snd (connection e self s)"
| "exec e (Op_load self) s = snd (load e self s)"
| "exec e (Op_save self data) s = snd (save e self data s)"
| "exec e (Op_describe self) s = snd (describe self s)"
| "exec e (Op_exists self) s = snd (exists_dataset e self s)"
| "exec e (Op_new_dict its) s = snd (new_dict its s)"
| "exec e (Op_set_dict d es) s = s\<lparr>dicts := (dicts s)(d := es)\<rparr>"
| "exec e (Op_set_obj a v) s = s\<lparr>objs := (objs s)(a := v)\<rparr>"
| "exec e (Op_set_fs f) s = s\<lparr>fs := f\<rparr>"

definition run :: "env \<Rightarrow> op list \<Rightarrow> state \<Rightarrow> state" where
  "run e ops s = fold (exec e) ops s"

section \<open>Predicates of the statements\<close>

text \<open>The key computed by \<^verbatim>\<open>key = hashable(self._connection_config)\<close>.\<close>

definition cache_key :: "state \<Rightarrow> FileDataset \<Rightarrow> error + pyval" where
  "cache_key s self = hashable (PDict (view s (connection_config self)))"

text \<open>A dict object that exists: its address and those of its values have been allocated.\<close>

definition allocated :: "state \<Rightarrow> addr \<Rightarrow> bool" where
  "allocated s d = (d < next_addr s \<and> list_all (\<lambda>(k, a). a < next_addr s) (dicts s d))"

text \<open>The handles in the registry are distinct objects that have been allocated.\<close>

definition reg_ok :: "state \<Rightarrow> bool" where
  "reg_ok s = (distinct (map snd (connections s)) \<and>
               list_all (\<lambda>(k, h). h < next_addr s) (connections s))"

text \<open>The entries of a configuration other than the backend identifier.\<close>

definition without_backend :: "item list \<Rightarrow> item list" where
  "without_backend its = filter (\<lambda>(k, v). k \<noteq> ''backend'') its"

text \<open>A well-formed dict object: allocated, and no key twice.\<close>

definition dict_ok :: "state \<Rightarrow> addr \<Rightarrow> bool" where
  "dict_ok s d = (allocated s d \<and> distinct (map fst (dicts s d)))"

text \<open>The overrides given at construction, read as a map: nothing when the argument is \<^verbatim>\<open>None\<close>.\<close>

definition given_args :: "state \<Rightarrow> addr option \<Rightarrow> string \<rightharpoonup> pyval" where
  "given_args s g = (case g of None \<Rightarrow> Map.empty | Some a \<Rightarrow> map_of (view s a))"

definition args_ok :: "state \<Rightarrow> addr option \<Rightarrow> bool" where
  "args_ok s g = (case g of None \<Rightarrow> True | Some a \<Rightarrow> dict_ok s a)"

text \<open>No file stands where a directory on the way to \<open>d\<close> (or \<open>d\<close> itself) is needed.\<close>

definition no_file_on :: "filesystem \<Rightarrow> path \<Rightarrow> bool" where
  "no_file_on f d = list_all (\<lambda>n. f (take n d) \<noteq> Some File) [0..<Suc (length d)]"

section \<open>A worked configuration\<close>

text \<open>
  An environment with the DuckDB backend only, a resolver that loads the path itself when
  it exists, and the dataset \<^verbatim>\<open>FileDataset("data/cars.csv", "csv", table_name="cars")\<close>.
\<close>

definition env0 :: env where
  "env0 = \<lparr>ibis = (\<lambda>name. if name = ''duckdb'' then Some (\<lambda>kw. None) else None),
            get_load_path = (\<lambda>p v f. if path_exists f p then Inr p else Inl DatasetError),
            get_save_path = (\<lambda>p v f. Inr p),
            reader = (\<lambda>h m. if m = ''read_csv'' then Some (\<lambda>p t kw f. Inr 0) else None),
            writer = (\<lambda>h m. if m = ''to_csv''
                             then Some (\<lambda>t p kw f. Inr (f(p \<mapsto> File))) else None)\<rparr>"

definition state0 :: state where
  "state0 = class_state Map.empty"

definition cars :: FileDataset where
  "cars = fst (FileDataset_init [''data'', ''cars.csv''] ''csv'' (Some ''cars'')
                 None None None None None state0)"

definition state1 :: state where
  "state1 = snd (FileDataset_init [''data'', ''cars.csv''] ''csv'' (Some ''cars'')
                 None None None None None state0)"

definition bikes :: FileDataset where
  "bikes = \<lparr>filepath = [''data'', ''bikes.csv''], file_format = ''csv'', table_name = None,
             connection_config = 13, load_args = 14, save_args = 15, version = None,
             metadata = None\<rparr>"

definition ops1 :: "op list" where
  "ops1 = [Op_save cars 0,
           Op_new_dict [(''database'', PStr '':memory:''), (''backend'', PStr ''duckdb'')],
           Op_init [''data'', ''bikes.csv''] ''csv'' None (Some 13) None None None None,
           Op_load cars]"

text \<open>
  Two datasets whose configurations differ in one nested value: the list
  \<^verbatim>\<open>["httpfs"]\<close> in one, the tuple \<^verbatim>\<open>("httpfs",)\<close> in the other.
\<close>

definition listy_ops :: "op list" where
  "listy_ops =
     [Op_init [''data'', ''cars.csv''] ''csv'' (Some ''cars'') None None None None None,
      Op_new_dict [(''backend'', PStr ''duckdb''), (''extensions'', PList [PStr ''httpfs''])],
      Op_new_dict [(''backend'', PStr ''duckdb''), (''extensions'', PTuple [PStr ''httpfs''])],
      Op_init [''data'', ''a.csv''] ''csv'' None (Some 9) None None None None,
      Op_init [''data'', ''b.csv''] ''csv'' None (Some 12) None None None None]"

definition listy :: FileDataset where
  "listy = \<lparr>filepath = [''data'', ''a.csv''], file_format = ''csv'', table_name = None,
             connection_config = 9, load_args = 13, save_args = 14, version = None,
             metadata = None\<rparr>"

definition tuply :: FileDataset where
  "tuply = \<lparr>filepath = [''data'', ''b.csv''], file_format = ''csv'', table_name = None,
             connection_config = 12, load_args = 15, save_args = 16, version = None,
             metadata = None\<rparr>"

text \<open>
  A caller's dict \<^verbatim>\<open>{"sep": ",", "opts": {"header": True}}\<close> passed as \<^verbatim>\<open>load_args\<close>, and
  the dataset constructed with it. The nested dict is the value object at address 6.
\<close>

definition nested_ops :: "op list" where
  "nested_ops =
     [Op_new_dict [(''sep'', PStr '',''), (''opts'', PDict [(''header'', PBool True)])],
      Op_init [''data'', ''n.csv''] ''csv'' None None (Some 7) None None None]"

definition nested :: FileDataset where
  "nested = \<lparr>filepath = [''data'', ''n.csv''], file_format = ''csv'', table_name = None,
              connection_config = 0, load_args = 8, save_args = 9, version = None,
              metadata = None\<rparr>"

text \<open>The same environment with a resolver that cannot resolve any path.\<close>

definition env_unresolved :: env where
  "env_unresolved = env0\<lparr>get_load_path := (\<lambda>p v f. Inl DatasetError),
                          get_save_path := (\<lambda>p v f. Inl DatasetError)\<rparr>"

section \<open>Lemmas\<close>

lemma insort_item_key:
  "fst x \<notin> fst ` set ys \<Longrightarrow> insort_item x ys = Inr (insort_key fst x ys)"
proof (induction ys)
  case Nil
  then show ?case by simp
next
  case (Cons y ys)
  then have ne: "fst y \<noteq> fst x" and rest: "fst x \<notin> fst ` set ys" by auto
  from ne have lt: "item_lt y x = Inr (fst y < fst x)" by (simp add: item_lt_def)
  show ?case
  proof (cases "fst y < fst x")
    case True
    then have "\<not> fst x \<le> fst y" by simp
    with True lt Cons.IH [OF rest] show ?thesis by simp
  next
    case False
    with ne have "fst x \<le> fst y" by simp
    with lt False show ?thesis by simp
  qed
qed

lemma py_sorted_key:
  "distinct (map fst xs) \<Longrightarrow> py_sorted xs = Inr (sort_key fst xs)"
  by (induction xs) (auto simp: insort_item_key)

lemma wf_items_sorted:
  "list_all (\<lambda>(k, v). wf_val v) items \<Longrightarrow> list_all (\<lambda>(k, v). wf_val v) (sort_key fst items)"
  by (simp add: list_all_iff)

lemma hashable_refines:
  "wf_val v \<Longrightarrow> hashable v = Inr (spec_normalize v)"
  "list_all (\<lambda>(k, v). wf_val v) its \<Longrightarrow>
      hashable_items its = Inr (map (\<lambda>(k, v). PTuple [PStr k, spec_normalize v]) its)"
  "list_all wf_val xs \<Longrightarrow> hashable_seq xs = Inr (map spec_normalize xs)"
proof (induction v and its and xs rule: hashable_hashable_items_hashable_seq.induct)
  case (1 items)
  then show ?case by (auto simp: py_sorted_key wf_items_sorted)
qed auto

lemma copy_entries_frame:
  "copy_entries memo es s = (es', s') \<Longrightarrow>
     dicts s' = dicts s \<and> connections s' = connections s \<and> fs s' = fs s \<and>
     trace s' = trace s \<and> next_addr s \<le> next_addr s' \<and>
     (\<forall>a < next_addr s. objs s' a = objs s a)"
proof (induction memo es s arbitrary: es' s' rule: copy_entries.induct)
  case (1 memo s)
  then show ?case by simp
next
  case (2 memo k a es s)
  show ?case
  proof (cases "map_of memo a")
    case None
    obtain es1 s1 where c: "copy_entries ((a, next_addr s) # memo) es
        (s\<lparr>objs := (objs s)(next_addr s := objs s a), next_addr := Suc (next_addr s)\<rparr>) = (es1, s1)"
      by (cases "copy_entries ((a, next_addr s) # memo) es
        (s\<lparr>objs := (objs s)(next_addr s := objs s a), next_addr := Suc (next_addr s)\<rparr>)")
    with None "2.prems" have "s' = s1" by simp
    with "2.IH"(1) [OF None c] show ?thesis by auto
  next
    case (Some n)
    obtain es1 s1 where c: "copy_entries memo es s = (es1, s1)"
      by (cases "copy_entries memo es s")
    with Some "2.prems" have "s' = s1" by simp
    with "2.IH"(2) [OF Some c] show ?thesis by simp
  qed
qed

lemma deepcopy_frame:
  "deepcopy d s = (n, s') \<Longrightarrow>
     connections s' = connections s \<and> fs s' = fs s \<and> trace s' = trace s \<and>
     n = next_addr s' - 1 \<and> next_addr s < next_addr s' \<and> next_addr s \<le> n \<and>
     (\<forall>a < next_addr s. objs s' a = objs s a) \<and>
     (\<forall>a < next_addr s. dicts s' a = dicts s a)"
  unfolding deepcopy_def
  by (auto split: prod.splits dest!: copy_entries_frame)

lemma py_eq_refl: "py_eq k k"
  by (simp add: py_eq_def)

lemma reg_lookup_py_eq: "py_eq k1 k2 \<Longrightarrow> reg_lookup r k1 = reg_lookup r k2"
  by (simp add: reg_lookup_def py_eq_def)

lemma reg_lookup_append:
  "reg_lookup r k = Some h \<Longrightarrow> reg_lookup (r @ xs) k = Some h"
  by (induction r) (auto simp: reg_lookup_def)

lemma reg_lookup_snoc_miss:
  "reg_lookup r k = None \<Longrightarrow> reg_lookup (r @ [(k, h)]) k = Some h"
  by (induction r) (auto simp: reg_lookup_def py_eq_refl)

lemma is_hashable_canon: "is_hashable (canon v) = is_hashable v"
  by (induction v rule: canon.induct) (auto simp: list_all_iff)

lemma py_eq_is_hashable: "py_eq a b \<Longrightarrow> is_hashable a = is_hashable b"
  by (metis is_hashable_canon py_eq_def)

lemma connect_backend_reg:
  "connect_backend e key d s = (r, s') \<Longrightarrow>
     (case r of
        Inl err \<Rightarrow> connections s' = connections s
      | Inr h \<Rightarrow> connections s' = connections s @ [(key, h)] \<and>
                 next_addr s \<le> h \<and> h < next_addr s')"
  unfolding connect_backend_def dict_pop_def
  by (auto split: prod.splits sum.splits option.splits pyval.splits dest!: deepcopy_frame)

lemma connection_reg:
  "connection e self s = (r, s') \<Longrightarrow> \<exists>xs. connections s' = connections s @ xs"
  unfolding connection_def
  by (auto split: sum.splits if_splits option.splits prod.splits dest!: connect_backend_reg)

lemma connection_success:
  assumes "connection e self s = (Inr h, s')" and "cache_key s self = Inr k"
  shows "is_hashable k \<and> reg_lookup (connections s') k = Some h"
  using assms unfolding connection_def cache_key_def
  by (auto split: sum.splits if_splits option.splits prod.splits)

lemma connection_hit:
  assumes "cache_key s self = Inr k" and "is_hashable k"
    and "reg_lookup (connections s) k = Some h"
  shows "connection e self s = (Inr h, s)"
  using assms unfolding connection_def cache_key_def by simp

lemma load_reg: "\<exists>xs. connections (snd (load e self s)) = connections s @ xs"
proof (cases "get_load_path e (filepath self) (version self) (fs s)")
  case (Inl err)
  then show ?thesis by (simp add: load_def)
next
  case (Inr p)
  obtain r s1 where c: "connection e self s = (r, s1)" by (cases "connection e self s")
  from connection_reg [OF c] obtain xs where x: "connections s1 = connections s @ xs" ..
  show ?thesis
  proof (cases r)
    case (Inl err)
    with c Inr x show ?thesis by (simp add: load_def)
  next
    case h: (Inr h)
    show ?thesis
    proof (cases "reader e h (''read_'' @ file_format self)")
      case None
      with c Inr x h show ?thesis by (simp add: load_def)
    next
      case (Some rd)
      with c Inr x h show ?thesis by (simp add: load_def)
    qed
  qed
qed

lemma save_reg: "\<exists>xs. connections (snd (save e self data s)) = connections s @ xs"
proof (cases "get_save_path e (filepath self) (version self) (fs s)")
  case (Inl err)
  then show ?thesis by (simp add: save_def)
next
  case (Inr p)
  show ?thesis
  proof (cases "mkdir_parents (fs s) (butlast p)")
    case (Inl err)
    with Inr show ?thesis by (simp add: save_def)
  next
    case f1: (Inr f1)
    define s0 where "s0 = s\<lparr>fs := f1, trace := trace s @ [Mkdir (butlast p)]\<rparr>"
    obtain r s1 where c: "connection e self s0 = (r, s1)" by (cases "connection e self s0")
    from connection_reg [OF c] obtain xs where x: "connections s1 = connections s @ xs"
      by (auto simp: s0_def)
    note c' = c [unfolded s0_def]
    show ?thesis
    proof (cases r)
      case (Inl err)
      with c' Inr f1 x show ?thesis by (simp add: save_def)
    next
      case h: (Inr h)
      show ?thesis
      proof (cases "writer e h (''to_'' @ file_format self)")
        case None
        with c' Inr f1 x h show ?thesis by (simp add: save_def)
      next
        case (Some wr)
        with c' Inr f1 x h show ?thesis
          by (cases "wr data p (view s1 (save_args self)) (fs s1)") (simp_all add: save_def)
      qed
    qed
  qed
qed

lemma new_entries_frame:
  "new_entries its s = (es, s') \<Longrightarrow> connections s' = connections s"
  by (induction its arbitrary: s es) (auto split: prod.splits)

lemma init_reg:
  "connections (snd (FileDataset_init fp fmt tn conn largs sargs ver meta s)) = connections s"
  unfolding FileDataset_init_def Let_def
  by (auto split: prod.splits option.splits dest!: deepcopy_frame)

lemma exec_reg: "\<exists>xs. connections (exec e op s) = connections s @ xs"
proof (cases op)
  case (Op_connection self)
  then show ?thesis using connection_reg [of e self s] by (cases "connection e self s") auto
next
  case (Op_load self)
  then show ?thesis using load_reg by simp
next
  case (Op_save self data)
  then show ?thesis using save_reg by simp
next
  case (Op_new_dict its)
  then show ?thesis
    by (auto simp: new_dict_def split: prod.splits dest: new_entries_frame)
qed (auto simp: init_reg describe_def exists_dataset_def split: option.splits sum.splits)

lemma run_reg: "\<exists>xs. connections (run e ops s) = connections s @ xs"
proof (induction ops arbitrary: s)
  case Nil
  then show ?case by (simp add: run_def)
next
  case (Cons op ops)
  obtain xs where 1: "connections (exec e op s) = connections s @ xs"
    using exec_reg by blast
  obtain ys where 2: "connections (run e ops (exec e op s)) = connections (exec e op s) @ ys"
    using Cons.IH by blast
  from 1 2 show ?case by (simp add: run_def)
qed

lemma copy_entries_view:
  assumes "copy_entries memo es s = (es', s')"
    and "\<forall>(k, a) \<in> set es. a < N"
    and "N \<le> next_addr s"
    and "\<forall>a n. map_of memo a = Some n \<longrightarrow> n < next_addr s \<and> objs s n = objs s a \<and> a < N"
  shows "map (\<lambda>(k, a). (k, objs s' a)) es' = map (\<lambda>(k, a). (k, objs s a)) es"
  using assms
proof (induction memo es s arbitrary: es' s' rule: copy_entries.induct)
  case (1 memo s)
  then show ?case by simp
next
  case (2 memo k a es s)
  from "2.prems"(2) have aN: "a < N" and esN: "\<forall>(k, a) \<in> set es. a < N" by auto
  show ?case
  proof (cases "map_of memo a")
    case None
    let ?n = "next_addr s"
    let ?s0 = "s\<lparr>objs := (objs s)(?n := objs s a), next_addr := Suc ?n\<rparr>"
    obtain es1 s1 where c: "copy_entries ((a, ?n) # memo) es ?s0 = (es1, s1)"
      by (cases "copy_entries ((a, ?n) # memo) es ?s0")
    with None "2.prems"(1) have r: "es' = (k, ?n) # es1" "s' = s1" by simp_all
    have memo0: "\<forall>b n. map_of ((a, ?n) # memo) b = Some n \<longrightarrow>
        n < next_addr ?s0 \<and> objs ?s0 n = objs ?s0 b \<and> b < N"
    proof (intro allI impI)
      fix b n assume m: "map_of ((a, ?n) # memo) b = Some n"
      show "n < next_addr ?s0 \<and> objs ?s0 n = objs ?s0 b \<and> b < N"
      proof (cases "b = a")
        case True
        with m aN "2.prems"(3) show ?thesis by auto
      next
        case False
        with m have "map_of memo b = Some n" by simp
        with "2.prems"(4) have "n < ?n" "objs s n = objs s b" "b < N" by auto
        with "2.prems"(3) show ?thesis by auto
      qed
    qed
    have N0: "N \<le> next_addr ?s0" using "2.prems"(3) by simp
    from "2.IH"(1) [OF None c esN N0 memo0]
    have ih: "map (\<lambda>(k, a). (k, objs s1 a)) es1 = map (\<lambda>(k, a). (k, objs ?s0 a)) es" .
    have same: "map (\<lambda>(k, a). (k, objs ?s0 a)) es = map (\<lambda>(k, a). (k, objs s a)) es"
      using esN "2.prems"(3) by (auto intro!: map_cong)
    from copy_entries_frame [OF c] have "objs s1 ?n = objs ?s0 ?n" by simp
    then have "objs s1 ?n = objs s a" by simp
    with r ih same show ?thesis by simp
  next
    case (Some n)
    obtain es1 s1 where c: "copy_entries memo es s = (es1, s1)"
      by (cases "copy_entries memo es s")
    with Some "2.prems"(1) have r: "es' = (k, n) # es1" "s' = s1" by simp_all
    from "2.IH"(2) [OF Some c esN "2.prems"(3,4)]
    have ih: "map (\<lambda>(k, a). (k, objs s1 a)) es1 = map (\<lambda>(k, a). (k, objs s a)) es" .
    from Some "2.prems"(4) have n: "n < next_addr s" "objs s n = objs s a" by auto
    from copy_entries_frame [OF c] n have "objs s1 n = objs s a" by simp
    with r ih show ?thesis by simp
  qed
qed

lemma deepcopy_view:
  assumes "deepcopy d s = (n, s')" and "allocated s d"
  shows "view s' n = view s d"
proof -
  obtain es s1 where c: "copy_entries [] (dicts s d) s = (es, s1)"
    by (cases "copy_entries [] (dicts s d) s")
  with assms(1) have n: "n = next_addr s1"
    and s': "s' = s1\<lparr>dicts := (dicts s1)(next_addr s1 := es), next_addr := Suc (next_addr s1)\<rparr>"
    by (auto simp: deepcopy_def)
  from assms(2) have "\<forall>(k, a) \<in> set (dicts s d). a < next_addr s"
    by (auto simp: allocated_def list_all_iff)
  from copy_entries_view [OF c this] 
  have "map (\<lambda>(k, a). (k, objs s1 a)) es = map (\<lambda>(k, a). (k, objs s a)) (dicts s d)" by simp
  with n s' show ?thesis by (simp add: view_def)
qed

lemma view_frame:
  assumes "allocated s d" and "dicts s' d = dicts s d"
    and "\<forall>a < next_addr s. objs s' a = objs s a"
  shows "view s' d = view s d"
  using assms by (auto simp: view_def allocated_def list_all_iff intro!: map_cong)

lemma map_of_view: "map_of (view s d) k = map_option (objs s) (map_of (dicts s d) k)"
  unfolding view_def by (induction "dicts s d" arbitrary: d) (auto simp: map_of_map split: prod.splits)

lemma reg_lookup_SomeD:
  "reg_lookup r k = Some h \<Longrightarrow> \<exists>k'. (k', h) \<in> set r \<and> py_eq k' k"
  by (induction r) (auto simp: reg_lookup_def split: if_splits)

lemma distinct_snd_unique:
  "distinct (map snd r) \<Longrightarrow> (k1, h) \<in> set r \<Longrightarrow> (k2, h) \<in> set r \<Longrightarrow> k1 = k2"
  by (induction r) (auto simp: image_iff)

lemma connect_backend_next:
  "connect_backend e key d s = (r, s') \<Longrightarrow> next_addr s \<le> next_addr s'"
  unfolding connect_backend_def dict_pop_def
  by (auto split: prod.splits sum.splits option.splits pyval.splits dest!: deepcopy_frame)

lemma connect_backend_reg_ok:
  assumes "connect_backend e key d s = (r, s')" and "reg_ok s"
  shows "reg_ok s'"
proof -
  from connect_backend_next [OF assms(1)] have n: "next_addr s \<le> next_addr s'" .
  from assms(2) have old: "\<forall>(k, h) \<in> set (connections s). h < next_addr s"
    and d: "distinct (map snd (connections s))"
    by (auto simp: reg_ok_def list_all_iff)
  show ?thesis
  proof (cases r)
    case (Inl err)
    with connect_backend_reg [OF assms(1)] have "connections s' = connections s" by simp
    with old d n show ?thesis by (fastforce simp: reg_ok_def list_all_iff)
  next
    case (Inr h)
    with connect_backend_reg [OF assms(1)]
    have c: "connections s' = connections s @ [(key, h)]"
      and h: "next_addr s \<le> h" "h < next_addr s'" by simp_all
    from old h have "h \<notin> snd ` set (connections s)" by fastforce
    with c d old h n show ?thesis by (fastforce simp: reg_ok_def list_all_iff)
  qed
qed

lemma connection_reg_ok:
  assumes "connection e self s = (r, s')" and "reg_ok s"
  shows "reg_ok s'"
proof (cases "cache_key s self")
  case (Inl err)
  with assms show ?thesis by (simp add: connection_def cache_key_def)
next
  case (Inr key)
  show ?thesis
  proof (cases "is_hashable key \<and> reg_lookup (connections s) key = None")
    case False
    with Inr assms show ?thesis
      by (auto simp: connection_def cache_key_def simp del: hashable.simps
            split: option.splits if_splits)
  next
    case True
    obtain r1 s1 where cb: "connect_backend e key (connection_config self) s = (r1, s1)"
      by (cases "connect_backend e key (connection_config self) s")
    from connect_backend_reg_ok [OF cb assms(2)] have "reg_ok s1" .
    moreover from True Inr cb assms(1) have "s' = s1"
      by (auto simp: connection_def cache_key_def simp del: hashable.simps
            split: sum.splits option.splits)
    ultimately show ?thesis by simp
  qed
qed

lemma reg_ok_mono:
  assumes "reg_ok s" and "connections s' = connections s" and "next_addr s \<le> next_addr s'"
  shows "reg_ok s'"
  using assms by (fastforce simp: reg_ok_def list_all_iff)

lemma new_entries_next:
  "new_entries its s = (es, s') \<Longrightarrow> next_addr s \<le> next_addr s'"
proof (induction its arbitrary: s es s')
  case Nil
  then show ?case by simp
next
  case (Cons it its)
  obtain k v where it: "it = (k, v)" by (cases it)
  let ?s0 = "s\<lparr>objs := (objs s)(next_addr s := v), next_addr := Suc (next_addr s)\<rparr>"
  obtain es1 s1 where n: "new_entries its ?s0 = (es1, s1)" by (cases "new_entries its ?s0")
  with Cons.prems it have "s' = s1" by simp
  with Cons.IH [OF n] show ?case by simp
qed

lemma new_dict_reg_ok: "reg_ok s \<Longrightarrow> reg_ok (snd (new_dict its s))"
proof -
  assume ok: "reg_ok s"
  obtain es s1 where n: "new_entries its s = (es, s1)" by (cases "new_entries its s")
  from new_entries_frame [OF n] new_entries_next [OF n]
  have "connections s1 = connections s" "next_addr s \<le> next_addr s1" by simp_all
  with n show ?thesis
    by (intro reg_ok_mono [OF ok]) (simp_all add: new_dict_def)
qed

lemma init_next:
  "next_addr s \<le> next_addr (snd (FileDataset_init fp fmt tn conn largs sargs ver meta s))"
proof -
  obtain la s1 where d1: "deepcopy DEFAULT_LOAD_ARGS s = (la, s1)"
    by (cases "deepcopy DEFAULT_LOAD_ARGS s")
  define s2 where "s2 = (case largs of None \<Rightarrow> s1
      | Some a \<Rightarrow> s1\<lparr>dicts := (dicts s1)(la := dict_update (dicts s1 la) (dicts s1 a))\<rparr>)"
  obtain sa s3 where d2: "deepcopy DEFAULT_SAVE_ARGS s2 = (sa, s3)"
    by (cases "deepcopy DEFAULT_SAVE_ARGS s2")
  have "next_addr s2 = next_addr s1" by (simp add: s2_def split: option.splits)
  with deepcopy_frame [OF d1] deepcopy_frame [OF d2] have "next_addr s \<le> next_addr s3" by simp
  with d1 d2 show ?thesis
    by (simp add: FileDataset_init_def s2_def [symmetric] split: option.splits)
qed

lemma load_reg_ok: "reg_ok s \<Longrightarrow> reg_ok (snd (load e self s))"
proof -
  assume ok: "reg_ok s"
  obtain r s1 where c: "connection e self s = (r, s1)" by (cases "connection e self s")
  from connection_reg_ok [OF c ok] have "reg_ok s1" .
  then have "\<And>t. reg_ok (s1\<lparr>trace := t\<rparr>)" by (simp add: reg_ok_def)
  with c ok \<open>reg_ok s1\<close> show ?thesis
    by (simp add: load_def split: sum.splits option.splits)
qed

lemma save_reg_ok: "reg_ok s \<Longrightarrow> reg_ok (snd (save e self data s))"
proof (cases "get_save_path e (filepath self) (version self) (fs s)")
  case (Inl err)
  assume "reg_ok s"
  with Inl show ?thesis by (simp add: save_def)
next
  case (Inr p)
  assume ok: "reg_ok s"
  show ?thesis
  proof (cases "mkdir_parents (fs s) (butlast p)")
    case (Inl err)
    with Inr ok show ?thesis by (simp add: save_def)
  next
    case f1: (Inr f1)
    define s0 where "s0 = s\<lparr>fs := f1, trace := trace s @ [Mkdir (butlast p)]\<rparr>"
    from ok have ok0: "reg_ok s0" by (simp add: reg_ok_def s0_def)
    obtain r s1 where c: "connection e self s0 = (r, s1)" by (cases "connection e self s0")
    from connection_reg_ok [OF c ok0] have ok1: "reg_ok s1" .
    then have upd: "\<And>t g. reg_ok (s1\<lparr>trace := t\<rparr>) \<and> reg_ok (s1\<lparr>fs := g, trace := t\<rparr>)"
      by (simp add: reg_ok_def)
    note c' = c [unfolded s0_def]
    show ?thesis
    proof (cases r)
      case (Inl err)
      with c' Inr f1 ok1 show ?thesis by (simp add: save_def)
    next
      case h: (Inr h)
      show ?thesis
      proof (cases "writer e h (''to_'' @ file_format self)")
        case None
        with c' Inr f1 h ok1 show ?thesis by (simp add: save_def)
      next
        case (Some wr)
        with c' Inr f1 h upd show ?thesis
          by (cases "wr data p (view s1 (save_args self)) (fs s1)") (simp_all add: save_def)
      qed
    qed
  qed
qed

lemma exec_reg_ok: "reg_ok s \<Longrightarrow> reg_ok (exec e op s)"
proof (cases op)
  case (Op_init fp fmt tn conn largs sargs ver meta)
  assume "reg_ok s"
  from reg_ok_mono [OF this init_reg init_next] Op_init show ?thesis by simp
next
  case (Op_connection self)
  assume "reg_ok s"
  with Op_connection connection_reg_ok [of e self s] show ?thesis
    by (cases "connection e self s") simp
next
  case (Op_load self)
  assume "reg_ok s"
  with Op_load load_reg_ok show ?thesis by simp
next
  case (Op_save self data)
  assume "reg_ok s"
  with Op_save save_reg_ok show ?thesis by simp
next
  case (Op_describe self)
  assume "reg_ok s"
  with Op_describe show ?thesis by (simp add: describe_def split: option.splits)
next
  case (Op_exists self)
  assume "reg_ok s"
  with Op_exists show ?thesis by (simp add: exists_dataset_def split: sum.splits)
next
  case (Op_new_dict its)
  assume "reg_ok s"
  with Op_new_dict new_dict_reg_ok show ?thesis by simp
next
  case (Op_set_dict d es)
  assume "reg_ok s"
  with Op_set_dict show ?thesis by (simp add: reg_ok_def)
next
  case (Op_set_obj a v)
  assume "reg_ok s"
  with Op_set_obj show ?thesis by (simp add: reg_ok_def)
next
  case (Op_set_fs f)
  assume "reg_ok s"
  with Op_set_fs show ?thesis by (simp add: reg_ok_def)
qed

lemma run_reg_ok: "reg_ok s \<Longrightarrow> reg_ok (run e ops s)"
  by (induction ops arbitrary: s) (simp_all add: run_def exec_reg_ok)

lemma reg_ok_class_state: "reg_ok (class_state f)"
  by (simp add: reg_ok_def class_state_def)

lemma connection_distinct:
  assumes "reg_ok s"
    and "connection e a1 s = (Inr h1, s1)"
    and "cache_key s a1 = Inr k1"
    and "connection e a2 s1 = (Inr h2, s2)"
    and "cache_key s1 a2 = Inr k2"
    and "\<not> py_eq k1 k2"
  shows "h1 \<noteq> h2 \<and> reg_lookup (connections s2) k1 = Some h1 \<and>
         reg_lookup (connections s2) k2 = Some h2"
proof -
  from connection_reg_ok [OF assms(2,1)] have "reg_ok s1" .
  from connection_reg_ok [OF assms(4) this] have ok2: "reg_ok s2" .
  from connection_success [OF assms(2,3)] have l1: "reg_lookup (connections s1) k1 = Some h1"
    by simp
  from connection_reg [OF assms(4)] obtain xs where "connections s2 = connections s1 @ xs" ..
  with l1 have l1': "reg_lookup (connections s2) k1 = Some h1"
    by (simp add: reg_lookup_append)
  from connection_success [OF assms(4,5)] have l2: "reg_lookup (connections s2) k2 = Some h2"
    by simp
  have "h1 \<noteq> h2"
  proof
    assume eq: "h1 = h2"
    from reg_lookup_SomeD [OF l1'] obtain ka where a: "(ka, h1) \<in> set (connections s2)" "py_eq ka k1"
      by blast
    from reg_lookup_SomeD [OF l2] eq obtain kb where b: "(kb, h1) \<in> set (connections s2)" "py_eq kb k2"
      by blast
    from ok2 have "distinct (map snd (connections s2))" by (simp add: reg_ok_def)
    from distinct_snd_unique [OF this a(1) b(1)] have "ka = kb" .
    with a(2) b(2) have "py_eq k1 k2" by (simp add: py_eq_def)
    with assms(6) show False by simp
  qed
  with l1' l2 show ?thesis by simp
qed

lemma deepcopy_dicts:
  assumes "deepcopy d s = (n, s')"
  shows "map fst (dicts s' n) = map fst (dicts s d) \<and> (\<forall>a. a \<noteq> n \<longrightarrow> dicts s' a = dicts s a)"
proof -
  have keys: "copy_entries memo es t = (es', t') \<Longrightarrow> map fst es' = map fst es"
    for memo es t es' t'
  proof (induction memo es t arbitrary: es' t' rule: copy_entries.induct)
    case (1 memo s)
    then show ?case by simp
  next
    case (2 memo k a es s)
    then show ?case by (auto split: option.splits prod.splits)
  qed
  obtain es s1 where c: "copy_entries [] (dicts s d) s = (es, s1)"
    by (cases "copy_entries [] (dicts s d) s")
  from copy_entries_frame [OF c] keys [OF c] c assms show ?thesis
    by (auto simp: deepcopy_def)
qed

lemma view_pop:
  "map (\<lambda>(k, a). (k, f a)) (filter (\<lambda>(k', a'). k' \<noteq> k) es) =
   filter (\<lambda>(k', v). k' \<noteq> k) (map (\<lambda>(k, a). (k, f a)) es)"
  by (induction es) auto

lemma connect_backend_miss:
  assumes al: "allocated s d"
    and b: "map_of (view s d) ''backend'' = Some (PStr name)"
    and i: "ibis e name = Some connect"
    and ok: "connect (without_backend (view s d)) = None"
  shows "\<exists>h s'. connect_backend e key d s = (Inr h, s') \<and>
           trace s' = trace s @ [Connect name (without_backend (view s d)) h] \<and>
           connections s' = connections s @ [(key, h)] \<and>
           fs s' = fs s \<and>
           dicts s' d = dicts s d \<and> view s' d = view s d"
proof -
  obtain n s1 where dc: "deepcopy d s = (n, s1)" by (cases "deepcopy d s")
  note fr = deepcopy_frame [OF dc]
  from deepcopy_view [OF dc al] have v1: "view s1 n = view s d" .
  from fr al have dn: "d \<noteq> n" by (auto simp: allocated_def)
  with deepcopy_dicts [OF dc] have d1: "dicts s1 d = dicts s d" by simp
  from b v1 have "map_of (view s1 n) ''backend'' = Some (PStr name)" by simp
  then obtain a where a: "map_of (dicts s1 n) ''backend'' = Some a" "objs s1 a = PStr name"
    by (auto simp: map_of_view)
  define s2 where "s2 = s1\<lparr>dicts := (dicts s1)(n := filter (\<lambda>(k', a'). k' \<noteq> ''backend'') (dicts s1 n))\<rparr>"
  from a have pop: "dict_pop n ''backend'' s1 = Inr (a, s2)"
    by (simp add: dict_pop_def s2_def)
  have v2: "view s2 n = without_backend (view s d)"
    unfolding v1 [symmetric] by (simp add: view_def s2_def view_pop without_backend_def)
  have o2: "objs s2 a = PStr name" using a by (simp add: s2_def)
  let ?h = "next_addr s2"
  let ?s' = "s2\<lparr>next_addr := Suc ?h, connections := connections s2 @ [(key, ?h)],
                trace := trace s2 @ [Connect name (view s2 n) ?h]\<rparr>"
  from dc pop o2 i ok v2 have r: "connect_backend e key d s = (Inr ?h, ?s')"
    by (simp add: connect_backend_def)
  have d': "dicts ?s' d = dicts s d" using d1 dn by (simp add: s2_def)
  have "\<forall>a < next_addr s. objs ?s' a = objs s a" using fr by (simp add: s2_def)
  from view_frame [OF al d' this] have v': "view ?s' d = view s d" .
  from fr have tr: "trace s2 = trace s" "connections s2 = connections s" "fs s2 = fs s"
    by (simp_all add: s2_def)
  have "trace ?s' = trace s @ [Connect name (without_backend (view s d)) ?h]"
    and "connections ?s' = connections s @ [(key, ?h)]" and "fs ?s' = fs s"
    by (simp_all add: tr v2)
  with r d' v' show ?thesis by blast
qed

lemma map_of_dict_set_apply: "map_of (dict_set es k a) j = ((map_of es)(k \<mapsto> a)) j"
  by (induction es) auto

lemma map_of_dict_set: "map_of (dict_set es k a) = (map_of es)(k \<mapsto> a)"
  by (rule ext) (rule map_of_dict_set_apply)

lemma dict_update_map_of:
  "distinct (map fst other) \<Longrightarrow> map_of (dict_update d other) = map_of d ++ map_of other"
proof (induction other arbitrary: d)
  case Nil
  then show ?case by (simp add: dict_update_def)
next
  case (Cons x other)
  obtain k a where x: "x = (k, a)" by (cases x)
  from Cons.prems x have k: "k \<notin> fst ` set other" and d: "distinct (map fst other)" by auto
  have "map_of (dict_update d (x # other)) = map_of (dict_update (dict_set d k a) other)"
    by (simp add: dict_update_def x)
  also have "\<dots> = (map_of d)(k \<mapsto> a) ++ map_of other"
    by (simp only: Cons.IH [OF d] map_of_dict_set)
  also have "\<dots> = map_of d ++ map_of (x # other)"
  proof
    fix j
    from k have "j = k \<Longrightarrow> map_of other j = None" by (simp add: map_of_eq_None_iff)
    then show "((map_of d)(k \<mapsto> a) ++ map_of other) j = (map_of d ++ map_of (x # other)) j"
      by (auto simp: x map_add_def split: option.splits)
  qed
  finally show ?case .
qed

lemma dict_set_values: "snd ` set (dict_set es k a) \<subseteq> insert a (snd ` set es)"
proof (induction es)
  case Nil
  then show ?case by simp
next
  case (Cons x es)
  obtain k' a' where x: "x = (k', a')" by (cases x)
  show ?case
  proof (cases "k' = k")
    case True
    with x show ?thesis by auto
  next
    case False
    with x Cons.IH show ?thesis by auto
  qed
qed

lemma dict_update_values: "snd ` set (dict_update d other) \<subseteq> snd ` set d \<union> snd ` set other"
proof (induction other arbitrary: d)
  case Nil
  then show ?case by (simp add: dict_update_def)
next
  case (Cons x other)
  obtain k a where x: "x = (k, a)" by (cases x)
  have "snd ` set (dict_update d (x # other)) = snd ` set (dict_update (dict_set d k a) other)"
    by (simp add: dict_update_def x)
  also have "\<dots> \<subseteq> snd ` set (dict_set d k a) \<union> snd ` set other" by (rule Cons.IH)
  also have "\<dots> \<subseteq> snd ` set d \<union> snd ` set (x # other)"
    using dict_set_values [of d k a] by (auto simp: x)
  finally show ?case .
qed

lemma copy_entries_alloc:
  assumes "copy_entries memo es s = (es', s')"
    and "\<forall>a n. map_of memo a = Some n \<longrightarrow> n < next_addr s"
  shows "\<forall>(k, a) \<in> set es'. a < next_addr s'"
  using assms
proof (induction memo es s arbitrary: es' s' rule: copy_entries.induct)
  case (1 memo s)
  then show ?case by simp
next
  case (2 memo k a es s)
  show ?case
  proof (cases "map_of memo a")
    case None
    let ?n = "next_addr s"
    let ?s0 = "s\<lparr>objs := (objs s)(?n := objs s a), next_addr := Suc ?n\<rparr>"
    obtain es1 s1 where c: "copy_entries ((a, ?n) # memo) es ?s0 = (es1, s1)"
      by (cases "copy_entries ((a, ?n) # memo) es ?s0")
    with None "2.prems"(1) have r: "es' = (k, ?n) # es1" "s' = s1" by simp_all
    have m: "\<forall>b n. map_of ((a, ?n) # memo) b = Some n \<longrightarrow> n < next_addr ?s0"
      using "2.prems"(2) by (auto simp: less_Suc_eq)
    from "2.IH"(1) [OF None c m] have ih: "\<forall>(k, a) \<in> set es1. a < next_addr s1" .
    from copy_entries_frame [OF c] have "?n < next_addr s1" by simp
    with r ih show ?thesis by simp
  next
    case (Some n)
    obtain es1 s1 where c: "copy_entries memo es s = (es1, s1)"
      by (cases "copy_entries memo es s")
    with Some "2.prems"(1) have r: "es' = (k, n) # es1" "s' = s1" by simp_all
    from "2.IH"(2) [OF Some c "2.prems"(2)] have ih: "\<forall>(k, a) \<in> set es1. a < next_addr s1" .
    from Some "2.prems"(2) have "n < next_addr s" by simp
    with copy_entries_frame [OF c] have "n < next_addr s1" by simp
    with r ih show ?thesis by simp
  qed
qed

lemma deepcopy_allocated:
  assumes "deepcopy d s = (n, s')"
  shows "allocated s' n"
proof -
  obtain es s1 where c: "copy_entries [] (dicts s d) s = (es, s1)"
    by (cases "copy_entries [] (dicts s d) s")
  from copy_entries_alloc [OF c] have "\<forall>(k, a) \<in> set es. a < next_addr s1" by simp
  then have "\<forall>(k, a) \<in> set es. a < Suc (next_addr s1)" by fastforce
  with c assms show ?thesis
    by (auto simp: deepcopy_def allocated_def list_all_iff)
qed

lemma allocated_mono:
  assumes "allocated s d" and "dicts s' d = dicts s d" and "next_addr s \<le> next_addr s'"
  shows "allocated s' d"
  using assms by (fastforce simp: allocated_def list_all_iff)

lemma map_of_view_fun: "map_of (view s d) = map_option (objs s) \<circ> map_of (dicts s d)"
  by (rule ext) (simp add: map_of_view)

lemma map_option_add:
  "map_option f \<circ> (m1 ++ m2) = (map_option f \<circ> m1) ++ (map_option f \<circ> m2)"
  by (rule ext) (simp add: map_add_def split: option.splits)

lemma args_step:
  assumes dc: "deepcopy D s = (n, s1)"
    and aD: "allocated s D"
    and ok: "args_ok s g"
    and s2: "s2 = (case g of None \<Rightarrow> s1
       | Some a \<Rightarrow> s1\<lparr>dicts := (dicts s1)(n := dict_update (dicts s1 n) (dicts s1 a))\<rparr>)"
  shows "map_of (view s2 n) = map_of (view s D) ++ given_args s g"
    and "allocated s2 n"
    and "next_addr s \<le> n" and "n < next_addr s2" and "next_addr s2 = next_addr s1"
    and "\<forall>d < next_addr s. dicts s2 d = dicts s d"
    and "\<forall>a < next_addr s. objs s2 a = objs s a"
    and "connections s2 = connections s"
proof -
  note fr = deepcopy_frame [OF dc]
  from fr have n: "next_addr s \<le> n" "n < next_addr s1" by auto
  from deepcopy_view [OF dc aD] have v1: "view s1 n = view s D" .
  from deepcopy_allocated [OF dc] have a1: "allocated s1 n" .
  have nx: "next_addr s2 = next_addr s1" and ob: "objs s2 = objs s1"
    and cn: "connections s2 = connections s1"
    by (simp_all add: s2 split: option.splits)
  from n have dd: "\<forall>d < next_addr s. dicts s2 d = dicts s1 d"
    by (auto simp: s2 split: option.splits)
  show "next_addr s \<le> n" by (rule n)
  show "n < next_addr s2" using n nx by simp
  show "next_addr s2 = next_addr s1" by (rule nx)
  show "\<forall>d < next_addr s. dicts s2 d = dicts s d" using dd fr by simp
  show "\<forall>a < next_addr s. objs s2 a = objs s a" using ob fr by simp
  show "connections s2 = connections s" using cn fr by simp
  show "map_of (view s2 n) = map_of (view s D) ++ given_args s g"
  proof (cases g)
    case None
    with v1 show ?thesis by (simp add: s2 given_args_def view_def)
  next
    case (Some a)
    with ok have al: "allocated s a" and di: "distinct (map fst (dicts s a))"
      by (simp_all add: args_ok_def dict_ok_def)
    from al fr have da: "dicts s1 a = dicts s a" by (simp add: allocated_def)
    from view_frame [OF al da] fr have va: "view s1 a = view s a" by simp
    from Some have d2: "dicts s2 n = dict_update (dicts s1 n) (dicts s1 a)" by (simp add: s2)
    from di da have "distinct (map fst (dicts s1 a))" by simp
    from dict_update_map_of [OF this]
    have "map_of (dicts s2 n) = map_of (dicts s1 n) ++ map_of (dicts s1 a)"
      unfolding d2 .
    then have "map_of (view s2 n) =
        map_option (objs s1) \<circ> (map_of (dicts s1 n) ++ map_of (dicts s1 a))"
      by (simp only: map_of_view_fun ob)
    also have "\<dots> = map_of (view s1 n) ++ map_of (view s1 a)"
      by (simp only: map_option_add map_of_view_fun)
    finally have "map_of (view s2 n) = map_of (view s1 n) ++ map_of (view s1 a)" .
    then show ?thesis unfolding v1 va by (simp add: given_args_def Some)
  qed
  show "allocated s2 n"
  proof (cases g)
    case None
    with a1 show ?thesis by (simp add: s2)
  next
    case (Some a)
    with ok have al: "allocated s a" by (simp add: args_ok_def dict_ok_def)
    from al fr have da: "dicts s1 a = dicts s a" by (simp add: allocated_def)
    have A: "b < next_addr s1" if "b \<in> snd ` set (dicts s1 a)" for b
    proof -
      from that da obtain k where "(k, b) \<in> set (dicts s a)" by auto
      with al have "b < next_addr s" by (auto simp: allocated_def list_all_iff)
      with fr show ?thesis by simp
    qed
    have B: "b < next_addr s1" if "b \<in> snd ` set (dicts s1 n)" for b
    proof -
      from that obtain k where "(k, b) \<in> set (dicts s1 n)" by auto
      with a1 show ?thesis by (auto simp: allocated_def list_all_iff)
    qed
    have C: "b < next_addr s1" if "(k, b) \<in> set (dict_update (dicts s1 n) (dicts s1 a))" for k b
    proof -
      from that have "b \<in> snd ` set (dict_update (dicts s1 n) (dicts s1 a))" by force
      with dict_update_values [of "dicts s1 n" "dicts s1 a"]
      have "b \<in> snd ` set (dicts s1 n) \<or> b \<in> snd ` set (dicts s1 a)" by blast
      with A B show ?thesis by blast
    qed
    from Some have d2: "dicts s2 n = dict_update (dicts s1 n) (dicts s1 a)" by (simp add: s2)
    have "list_all (\<lambda>(k, b). b < next_addr s2) (dicts s2 n)"
      unfolding d2 nx list_all_iff using C by blast
    with n nx show ?thesis by (simp add: allocated_def)
  qed
qed

lemma args_ok_frame:
  assumes "args_ok s g" and "\<forall>d < next_addr s. dicts s' d = dicts s d"
    and "\<forall>a < next_addr s. objs s' a = objs s a" and "next_addr s \<le> next_addr s'"
  shows "args_ok s' g \<and> given_args s' g = given_args s g"
proof (cases g)
  case None
  then show ?thesis by (simp add: args_ok_def given_args_def)
next
  case (Some a)
  with assms(1) have al: "allocated s a" and di: "distinct (map fst (dicts s a))"
    by (simp_all add: args_ok_def dict_ok_def)
  from al assms(2) have da: "dicts s' a = dicts s a" by (simp add: allocated_def)
  from allocated_mono [OF al da assms(4)] have "allocated s' a" .
  moreover from view_frame [OF al da assms(3)] have "view s' a = view s a" .
  ultimately show ?thesis using Some di da by (simp add: args_ok_def dict_ok_def given_args_def)
qed

lemma init_frame:
  assumes "FileDataset_init fp fmt tn conn largs sargs ver meta s = (self, s')"
  shows "(\<forall>d < next_addr s. dicts s' d = dicts s d) \<and>
         (\<forall>a < next_addr s. objs s' a = objs s a) \<and>
         next_addr s \<le> load_args self \<and> load_args self < save_args self"
proof -
  obtain la s1 where d1: "deepcopy DEFAULT_LOAD_ARGS s = (la, s1)"
    by (cases "deepcopy DEFAULT_LOAD_ARGS s")
  define s2 where "s2 = (case largs of None \<Rightarrow> s1
      | Some a \<Rightarrow> s1\<lparr>dicts := (dicts s1)(la := dict_update (dicts s1 la) (dicts s1 a))\<rparr>)"
  obtain sa s3 where d2: "deepcopy DEFAULT_SAVE_ARGS s2 = (sa, s3)"
    by (cases "deepcopy DEFAULT_SAVE_ARGS s2")
  define s4 where "s4 = (case sargs of None \<Rightarrow> s3
      | Some a \<Rightarrow> s3\<lparr>dicts := (dicts s3)(sa := dict_update (dicts s3 sa) (dicts s3 a))\<rparr>)"
  from assms d1 d2 have self: "load_args self = la" "save_args self = sa" and s': "s' = s4"
    by (auto simp: FileDataset_init_def s2_def [symmetric] s4_def [symmetric])
  note f1 = deepcopy_frame [OF d1] and f2 = deepcopy_frame [OF d2]
  from f1 have la: "next_addr s \<le> la" "la < next_addr s1" by auto
  have n2: "next_addr s2 = next_addr s1" and o2: "objs s2 = objs s1"
    by (simp_all add: s2_def split: option.splits)
  from la have dd2: "\<forall>d < next_addr s. dicts s2 d = dicts s1 d"
    by (auto simp: s2_def split: option.splits)
  from f2 n2 la have sa: "la < sa" "sa < next_addr s3" by auto
  have o4: "objs s4 = objs s3" by (simp add: s4_def split: option.splits)
  from sa la have dd4: "\<forall>d < next_addr s. dicts s4 d = dicts s3 d"
    by (auto simp: s4_def split: option.splits)
  have "\<forall>d < next_addr s. dicts s4 d = dicts s d"
    using dd4 f2 dd2 f1 n2 by auto
  moreover have "\<forall>a < next_addr s. objs s4 a = objs s a"
    using o4 f2 o2 f1 n2 by auto
  ultimately show ?thesis using la sa by (simp add: self s')
qed

lemma connect_backend_fs:
  "connect_backend e key d s = (r, s') \<Longrightarrow> fs s' = fs s"
  unfolding connect_backend_def dict_pop_def
  by (auto split: prod.splits sum.splits option.splits pyval.splits dest!: deepcopy_frame)

lemma connection_fs:
  assumes "connection e self s = (r, s')"
  shows "fs s' = fs s"
proof (cases "cache_key s self")
  case (Inl err)
  with assms show ?thesis by (simp add: connection_def cache_key_def)
next
  case (Inr key)
  show ?thesis
  proof (cases "is_hashable key \<and> reg_lookup (connections s) key = None")
    case False
    with Inr assms show ?thesis
      by (auto simp: connection_def cache_key_def simp del: hashable.simps
            split: option.splits if_splits)
  next
    case True
    obtain r1 s1 where cb: "connect_backend e key (connection_config self) s = (r1, s1)"
      by (cases "connect_backend e key (connection_config self) s")
    from connect_backend_fs [OF cb] have "fs s1 = fs s" .
    moreover from True Inr cb assms have "s' = s1"
      by (auto simp: connection_def cache_key_def simp del: hashable.simps
            split: sum.splits option.splits)
    ultimately show ?thesis by simp
  qed
qed

lemma no_file_on_iff: "no_file_on f d \<longleftrightarrow> (\<forall>n \<le> length d. f (take n d) \<noteq> Some File)"
  by (auto simp: no_file_on_def list_all_iff less_Suc_eq_le simp del: upt_Suc)

lemma no_file_onD: "no_file_on f d \<Longrightarrow> n \<le> length d \<Longrightarrow> f (take n d) \<noteq> Some File"
  by (simp add: no_file_on_iff)

lemma no_file_on_butlast: "no_file_on f (ds @ [c]) \<Longrightarrow> no_file_on f ds"
proof -
  assume a: "no_file_on f (ds @ [c])"
  have "f (take n ds) \<noteq> Some File" if "n \<le> length ds" for n
  proof -
    from that have "take n (ds @ [c]) = take n ds" by simp
    moreover from that have "n \<le> length (ds @ [c])" by simp
    ultimately show ?thesis using no_file_onD [OF a, of n] by simp
  qed
  then show ?thesis by (simp add: no_file_on_iff)
qed

lemma mkdir_parents_ok:
  "no_file_on f d \<Longrightarrow>
   \<exists>f'. mkdir_parents f d = Inr f' \<and> fs_kind f' d = Some Dir \<and>
        (\<forall>q. f' q = f q \<or> (f q = None \<and> f' q = Some Dir \<and> (\<exists>n \<le> length d. q = take n d)))"
proof (induction d rule: rev_induct)
  case Nil
  have "os_mkdir f [] = Inl FileExistsError"
    by (simp add: os_mkdir_def path_exists_def fs_kind_def)
  then have "mkdir_parents f [] = Inr f"
    by (subst mkdir_parents.simps) (simp add: fs_kind_def)
  then show ?case by (simp add: fs_kind_def)
next
  case (snoc c ds)
  let ?p = "ds @ [c]"
  from no_file_onD [OF snoc.prems, of "length ?p"] have nf: "f ?p \<noteq> Some File" by simp
  from snoc.IH [OF no_file_on_butlast [OF snoc.prems]]
  obtain f1 where m1: "mkdir_parents f ds = Inr f1" and k1: "fs_kind f1 ds = Some Dir"
    and fr1: "\<forall>q. f1 q = f q \<or> (f q = None \<and> f1 q = Some Dir \<and> (\<exists>n \<le> length ds. q = take n ds))"
    by blast
  show ?case
  proof (cases "f ?p")
    case (Some k)
    with nf have d: "f ?p = Some Dir" by (cases k) simp_all
    then have "os_mkdir f ?p = Inl FileExistsError"
      by (simp add: os_mkdir_def path_exists_def fs_kind_def)
    with d have "mkdir_parents f ?p = Inr f"
      by (subst mkdir_parents.simps) (simp add: fs_kind_def)
    with d show ?thesis by (simp add: fs_kind_def)
  next
    case None
    then have ne: "\<not> path_exists f ?p" by (simp add: path_exists_def fs_kind_def)
    show ?thesis
    proof (cases "fs_kind f ds")
      case (Some k)
      have "k = Dir"
      proof (cases k)
        case File
        with Some have "ds \<noteq> []" "f ds = Some File"
          by (auto simp: fs_kind_def split: if_splits)
        moreover from no_file_onD [OF snoc.prems, of "length ds"] have "f ds \<noteq> Some File"
          by simp
        ultimately show ?thesis by simp
      qed simp
      with Some ne have o: "os_mkdir f ?p = Inr (f(?p \<mapsto> Dir))"
        by (simp add: os_mkdir_def)
      then have "mkdir_parents f ?p = Inr (f(?p \<mapsto> Dir))"
        by (subst mkdir_parents.simps) simp
      moreover have "fs_kind (f(?p \<mapsto> Dir)) ?p = Some Dir" by (simp add: fs_kind_def)
      moreover have "\<forall>q. (f(?p \<mapsto> Dir)) q = f q \<or>
          (f q = None \<and> (f(?p \<mapsto> Dir)) q = Some Dir \<and> (\<exists>n \<le> length ?p. q = take n ?p))"
        using None by (auto intro: exI [of _ "length ?p"])
      ultimately show ?thesis by blast
    next
      case kn: None
      with ne have o: "os_mkdir f ?p = Inl FileNotFoundError" by (simp add: os_mkdir_def)
      have "f1 ?p = None"
      proof -
        from fr1 have "f1 ?p = f ?p \<or> (\<exists>n \<le> length ds. ?p = take n ds)" by blast
        moreover have "\<not> (\<exists>n \<le> length ds. ?p = take n ds)"
        proof
          assume "\<exists>n \<le> length ds. ?p = take n ds"
          then obtain n where "?p = take n ds" by blast
          then have "length ?p = length (take n ds)" by simp
          then show False by simp
        qed
        ultimately show ?thesis using None by simp
      qed
      with k1 have "os_mkdir f1 ?p = Inr (f1(?p \<mapsto> Dir))"
        by (simp add: os_mkdir_def path_exists_def fs_kind_def)
      then have e: "mkdir_exist_ok f1 ?p = Inr (f1(?p \<mapsto> Dir))" by (simp add: mkdir_exist_ok_def)
      from o m1 e have "mkdir_parents f ?p = Inr (f1(?p \<mapsto> Dir))"
        by (subst mkdir_parents.simps) simp
      moreover have "fs_kind (f1(?p \<mapsto> Dir)) ?p = Some Dir" by (simp add: fs_kind_def)
      moreover have "(f1(?p \<mapsto> Dir)) q = f q \<or>
          (f q = None \<and> (f1(?p \<mapsto> Dir)) q = Some Dir \<and> (\<exists>n \<le> length ?p. q = take n ?p))" for q
      proof (cases "q = ?p")
        case True
        with None show ?thesis by (auto intro: exI [of _ "length ?p"])
      next
        case False
        from fr1 have "f1 q = f q \<or> (f q = None \<and> f1 q = Some Dir \<and> (\<exists>n \<le> length ds. q = take n ds))"
          by blast
        then show ?thesis
        proof
          assume "f1 q = f q"
          with False show ?thesis by simp
        next
          assume a: "f q = None \<and> f1 q = Some Dir \<and> (\<exists>n \<le> length ds. q = take n ds)"
          then obtain n where n: "n \<le> length ds" "q = take n ds" by blast
          then have "q = take n ?p" "n \<le> length ?p" by simp_all
          with a False show ?thesis by auto
        qed
      qed
      ultimately show ?thesis by blast
    qed
  qed
qed

section \<open>The claims\<close>

text \<open>
  C1. If \<open>connection\<close> has returned a handle for one dataset, then after any further
  operations of the process (constructions, loads, saves, lookups, changes the callers make
  to their dicts, changes to the file system) the registry still holds that handle under
  the same key, and \<open>connection\<close> on any dataset whose normalized configuration equals the
  first one returns that same handle, leaving the state as it is.
\<close>

theorem connection_identity:
  assumes "connection e a1 s = (Inr h, s1)"
    and "cache_key s a1 = Inr k1"
    and "cache_key (run e ops s1) a2 = Inr k2"
    and "py_eq k1 k2"
  shows "reg_lookup (connections (run e ops s1)) k1 = Some h \<and>
         connection e a2 (run e ops s1) = (Inr h, run e ops s1)"
proof -
  from connection_success [OF assms(1,2)]
  have hk: "is_hashable k1" and l1: "reg_lookup (connections s1) k1 = Some h" by simp_all
  obtain xs where "connections (run e ops s1) = connections s1 @ xs"
    using run_reg by blast
  with l1 have l2: "reg_lookup (connections (run e ops s1)) k1 = Some h"
    by (simp add: reg_lookup_append)
  with assms(4) have l3: "reg_lookup (connections (run e ops s1)) k2 = Some h"
    by (simp add: reg_lookup_py_eq)
  from hk assms(4) have "is_hashable k2" by (simp add: py_eq_is_hashable)
  from connection_hit [OF assms(3) this l3] l2 show ?thesis by simp
qed

theorem connection_identity_witness:
  "fst (connection env0 cars state1) = Inr 10 \<and>
   view (run env0 ops1 (snd (connection env0 cars state1))) (connection_config bikes) =
     [(''database'', PStr '':memory:''), (''backend'', PStr ''duckdb'')] \<and>
   fst (connection env0 bikes (run env0 ops1 (snd (connection env0 cars state1)))) = Inr 10"
proof -
  let ?s1 = "snd (connection env0 cars state1)"
  let ?k = "PTuple [PTuple [PStr ''backend'', PStr ''duckdb''],
                    PTuple [PStr ''database'', PStr '':memory:'']]"
  have f: "fst (connection env0 cars state1) = Inr 10" by code_simp
  then have c: "connection env0 cars state1 = (Inr 10, ?s1)"
    by (metis prod.collapse)
  have k1: "cache_key state1 cars = Inr ?k" by code_simp
  have k2: "cache_key (run env0 ops1 ?s1) bikes = Inr ?k" by code_simp
  have v: "view (run env0 ops1 ?s1) (connection_config bikes) =
     [(''database'', PStr '':memory:''), (''backend'', PStr ''duckdb'')]" by code_simp
  from connection_identity [OF c k1 k2 py_eq_refl] f v show ?thesis by simp
qed

text \<open>
  C2. The cache-key normalization computes exactly what the specification says: for a dict,
  the tuple of (key, normalized value) pairs sorted by key, recursing into the values; for a
  list, the tuple of its normalized elements; any other value unchanged. Hence two
  configurations get the same key if and only if their normalizations are equal.
  The comparison of whole items made by \<^verbatim>\<open>sorted\<close> never reaches the values, since the keys
  of a dict are distinct, and so never raises.
\<close>

theorem hashable_spec_normalize:
  assumes "wf_val c1" and "wf_val c2"
  shows "hashable c1 = Inr (spec_normalize c1) \<and>
         (hashable c1 = hashable c2 \<longleftrightarrow> spec_normalize c1 = spec_normalize c2)"
  using assms by (simp add: hashable_refines(1))

theorem hashable_spec_normalize_witness:
  "wf_val (PDict [(''database'', PStr ''company.db''), (''backend'', PStr ''duckdb''),
                  (''extensions'', PList [PStr ''httpfs'', PDict [(''b'', PInt 2), (''a'', PBool True)]])]) \<and>
   wf_val (PDict [(''backend'', PStr ''duckdb''), (''database'', PStr ''company.db'')]) \<and>
   hashable (PDict [(''database'', PStr ''company.db''), (''backend'', PStr ''duckdb''),
                    (''extensions'', PList [PStr ''httpfs'', PDict [(''b'', PInt 2), (''a'', PBool True)]])]) =
     Inr (PTuple [PTuple [PStr ''backend'', PStr ''duckdb''],
                  PTuple [PStr ''database'', PStr ''company.db''],
                  PTuple [PStr ''extensions'',
                          PTuple [PStr ''httpfs'',
                                  PTuple [PTuple [PStr ''a'', PBool True],
                                          PTuple [PStr ''b'', PInt 2]]]]])"
proof -
  let ?c1 = "PDict [(''database'', PStr ''company.db''), (''backend'', PStr ''duckdb''),
                  (''extensions'', PList [PStr ''httpfs'', PDict [(''b'', PInt 2), (''a'', PBool True)]])]"
  let ?c2 = "PDict [(''backend'', PStr ''duckdb''), (''database'', PStr ''company.db'')]"
  have w1: "wf_val ?c1" by code_simp
  have w2: "wf_val ?c2" by code_simp
  have n: "spec_normalize ?c1 =
     PTuple [PTuple [PStr ''backend'', PStr ''duckdb''],
                  PTuple [PStr ''database'', PStr ''company.db''],
                  PTuple [PStr ''extensions'',
                          PTuple [PStr ''httpfs'',
                                  PTuple [PTuple [PStr ''a'', PBool True],
                                          PTuple [PStr ''b'', PInt 2]]]]]"
    by code_simp
  from hashable_spec_normalize [OF w1 w2] w1 w2 n show ?thesis by simp
qed

text \<open>
  C3. As stated the claim fails: \<open>hashable\<close> turns a list into a tuple, so a configuration
  holding a list and one holding the tuple of the same elements get the same key and share
  one handle. What holds: in any state the process can reach, two configurations whose keys
  are not equal (by Python's equality) get two distinct handles when both lookups succeed,
  and the registry then holds each handle under its own key.
\<close>

theorem connection_isolation:
  assumes "connection e a1 (run e ops (class_state f)) = (Inr h1, s1)"
    and "cache_key (run e ops (class_state f)) a1 = Inr k1"
    and "connection e a2 s1 = (Inr h2, s2)"
    and "cache_key s1 a2 = Inr k2"
    and "\<not> py_eq k1 k2"
  shows "h1 \<noteq> h2 \<and> reg_lookup (connections s2) k1 = Some h1 \<and>
         reg_lookup (connections s2) k2 = Some h2"
  using connection_distinct [OF run_reg_ok [OF reg_ok_class_state] assms] .

theorem connection_isolation_counterexample:
  "fst (FileDataset_init [''data'', ''a.csv''] ''csv'' None (Some 9) None None None None
          (run env0 (take 3 listy_ops) state0)) = listy \<and>
   fst (FileDataset_init [''data'', ''b.csv''] ''csv'' None (Some 12) None None None None
          (run env0 (take 4 listy_ops) state0)) = tuply \<and>
   view (run env0 listy_ops state0) (connection_config listy) =
     [(''backend'', PStr ''duckdb''), (''extensions'', PList [PStr ''httpfs''])] \<and>
   view (run env0 listy_ops state0) (connection_config tuply) =
     [(''backend'', PStr ''duckdb''), (''extensions'', PTuple [PStr ''httpfs''])] \<and>
   \<not> py_eq (PList [PStr ''httpfs'']) (PTuple [PStr ''httpfs'']) \<and>
   fst (connection env0 listy (run env0 listy_ops state0)) = Inr 20 \<and>
   fst (connection env0 tuply (snd (connection env0 listy (run env0 listy_ops state0)))) = Inr 20"
  by code_simp

theorem connection_isolation_witness:
  "fst (connection env0 listy (run env0 listy_ops (class_state Map.empty))) = Inr 20 \<and>
   fst (connection env0 cars
          (snd (connection env0 listy (run env0 listy_ops (class_state Map.empty))))) = Inr 24 \<and>
   (20 :: nat) \<noteq> 24"
proof -
  let ?s = "run env0 listy_ops (class_state Map.empty)"
  let ?s1 = "snd (connection env0 listy ?s)"
  let ?s2 = "snd (connection env0 cars ?s1)"
  let ?k1 = "PTuple [PTuple [PStr ''backend'', PStr ''duckdb''],
                     PTuple [PStr ''extensions'', PTuple [PStr ''httpfs'']]]"
  let ?k2 = "PTuple [PTuple [PStr ''backend'', PStr ''duckdb''],
                     PTuple [PStr ''database'', PStr '':memory:'']]"
  have f1: "fst (connection env0 listy ?s) = Inr 20" by code_simp
  then have c1: "connection env0 listy ?s = (Inr 20, ?s1)" by (metis prod.collapse)
  have f2: "fst (connection env0 cars ?s1) = Inr 24" by code_simp
  then have c2: "connection env0 cars ?s1 = (Inr 24, ?s2)" by (metis prod.collapse)
  have k1: "cache_key ?s listy = Inr ?k1" by code_simp
  have k2: "cache_key ?s1 cars = Inr ?k2" by code_simp
  have ne: "\<not> py_eq ?k1 ?k2" by code_simp
  from connection_isolation [OF c1 k1 c2 k2 ne] f1 f2 show ?thesis by simp
qed

text \<open>
  C4. On a cache miss the backend identifier is taken out of a deep copy of the
  configuration, the identifier is resolved to a backend, its \<^verbatim>\<open>connect\<close> is called with
  exactly the remaining entries as keyword arguments (it is the one call added to the
  trace), and the new handle is stored under the key. The dataset's own configuration is
  unchanged and still holds the backend identifier.
\<close>

theorem connection_miss:
  assumes "cache_key s self = Inr key" and "is_hashable key"
    and "reg_lookup (connections s) key = None"
    and "allocated s (connection_config self)"
    and "map_of (view s (connection_config self)) ''backend'' = Some (PStr name)"
    and "ibis e name = Some connect"
    and "connect (without_backend (view s (connection_config self))) = None"
  shows "\<exists>h s'. connection e self s = (Inr h, s') \<and>
           trace s' = trace s @
             [Connect name (without_backend (view s (connection_config self))) h] \<and>
           connections s' = connections s @ [(key, h)] \<and>
           reg_lookup (connections s') key = Some h \<and>
           dicts s' (connection_config self) = dicts s (connection_config self) \<and>
           view s' (connection_config self) = view s (connection_config self) \<and>
           map_of (view s' (connection_config self)) ''backend'' = Some (PStr name)"
proof -
  from connect_backend_miss [OF assms(4-7), of key]
  obtain h s' where cb: "connect_backend e key (connection_config self) s = (Inr h, s')"
    and t: "trace s' = trace s @
             [Connect name (without_backend (view s (connection_config self))) h]"
    and c: "connections s' = connections s @ [(key, h)]"
    and d: "dicts s' (connection_config self) = dicts s (connection_config self)"
    and v: "view s' (connection_config self) = view s (connection_config self)"
    by blast
  from assms(3) c have l: "reg_lookup (connections s') key = Some h"
    by (simp add: reg_lookup_snoc_miss)
  from assms(1,2,3) cb l have "connection e self s = (Inr h, s')"
    by (simp add: connection_def cache_key_def del: hashable.simps)
  with t c l d v assms(5) show ?thesis by simp
qed

theorem connection_miss_witness:
  "cache_key state1 cars =
     Inr (PTuple [PTuple [PStr ''backend'', PStr ''duckdb''],
                  PTuple [PStr ''database'', PStr '':memory:'']]) \<and>
   reg_lookup (connections state1)
     (PTuple [PTuple [PStr ''backend'', PStr ''duckdb''],
              PTuple [PStr ''database'', PStr '':memory:'']]) = None \<and>
   fst (connection env0 cars state1) = Inr 10 \<and>
   trace (snd (connection env0 cars state1)) =
     [Connect ''duckdb'' [(''database'', PStr '':memory:'')] 10] \<and>
   view (snd (connection env0 cars state1)) (connection_config cars) =
     [(''backend'', PStr ''duckdb''), (''database'', PStr '':memory:'')]"
proof -
  let ?key = "PTuple [PTuple [PStr ''backend'', PStr ''duckdb''],
                      PTuple [PStr ''database'', PStr '':memory:'']]"
  have k: "cache_key state1 cars = Inr ?key" by code_simp
  have hk: "is_hashable ?key" by code_simp
  have miss: "reg_lookup (connections state1) ?key = None" by code_simp
  have al: "allocated state1 (connection_config cars)" by code_simp
  have b: "map_of (view state1 (connection_config cars)) ''backend'' = Some (PStr ''duckdb'')"
    by code_simp
  have i: "ibis env0 ''duckdb'' = Some (\<lambda>kw. None)" by (simp add: env0_def)
  have ok: "(\<lambda>kw. None :: error option) (without_backend (view state1 (connection_config cars))) = None"
    by simp
  have f: "fst (connection env0 cars state1) = Inr 10" by code_simp
  have t0: "trace state1 = []" by code_simp
  have w: "without_backend (view state1 (connection_config cars)) =
     [(''database'', PStr '':memory:'')]" by code_simp
  have v0: "view state1 (connection_config cars) =
     [(''backend'', PStr ''duckdb''), (''database'', PStr '':memory:'')]" by code_simp
  from connection_miss [OF k hk miss al b i ok] f t0 w v0 k miss show ?thesis
    by auto
qed

text \<open>
  C5. The stored load and save arguments are the defaults overridden by the arguments given
  at construction. As stated the claim fails for nested values: \<^verbatim>\<open>update\<close> copies the
  references held by the caller's dict, so an object nested inside it is shared with the
  stored arguments, and mutating that object changes them. What holds: whatever is done
  afterwards to the entries of the dict object that was passed (adding, removing or
  rebinding keys) leaves the stored arguments as they are.
\<close>

theorem init_args_copied:
  assumes "allocated s DEFAULT_LOAD_ARGS" and "allocated s DEFAULT_SAVE_ARGS"
    and "args_ok s largs" and "args_ok s sargs"
    and "FileDataset_init fp fmt tn conn largs sargs ver meta s = (self, s')"
  shows "map_of (view s' (load_args self)) =
           map_of (view s DEFAULT_LOAD_ARGS) ++ given_args s largs \<and>
         map_of (view s' (save_args self)) =
           map_of (view s DEFAULT_SAVE_ARGS) ++ given_args s sargs \<and>
         (\<forall>d es. largs = Some d \<or> sargs = Some d \<longrightarrow>
            view (exec e (Op_set_dict d es) s') (load_args self) = view s' (load_args self) \<and>
            view (exec e (Op_set_dict d es) s') (save_args self) = view s' (save_args self))"
proof -
  obtain la s1 where d1: "deepcopy DEFAULT_LOAD_ARGS s = (la, s1)"
    by (cases "deepcopy DEFAULT_LOAD_ARGS s")
  define s2 where "s2 = (case largs of None \<Rightarrow> s1
      | Some a \<Rightarrow> s1\<lparr>dicts := (dicts s1)(la := dict_update (dicts s1 la) (dicts s1 a))\<rparr>)"
  obtain sa s3 where d2: "deepcopy DEFAULT_SAVE_ARGS s2 = (sa, s3)"
    by (cases "deepcopy DEFAULT_SAVE_ARGS s2")
  define s4 where "s4 = (case sargs of None \<Rightarrow> s3
      | Some a \<Rightarrow> s3\<lparr>dicts := (dicts s3)(sa := dict_update (dicts s3 sa) (dicts s3 a))\<rparr>)"
  from assms(5) d1 d2 have self: "load_args self = la" "save_args self = sa" and s': "s' = s4"
    by (auto simp: FileDataset_init_def s2_def [symmetric] s4_def [symmetric])
  note st1 = args_step [OF d1 assms(1,3) s2_def]
  from st1(3,4) have mono: "next_addr s \<le> next_addr s2" by simp
  from assms(2) st1(6) have dS: "dicts s2 DEFAULT_SAVE_ARGS = dicts s DEFAULT_SAVE_ARGS"
    by (simp add: allocated_def)
  from allocated_mono [OF assms(2) dS mono] have aS: "allocated s2 DEFAULT_SAVE_ARGS" .
  from view_frame [OF assms(2) dS st1(7)]
  have vS: "view s2 DEFAULT_SAVE_ARGS = view s DEFAULT_SAVE_ARGS" .
  from args_ok_frame [OF assms(4) st1(6,7) mono]
  have ok2: "args_ok s2 sargs" and g2: "given_args s2 sargs = given_args s sargs" by simp_all
  note st2 = args_step [OF d2 aS ok2 s4_def]
  from st1(4) st2(6) have "dicts s4 la = dicts s2 la" by simp
  from view_frame [OF st1(2) this st2(7)] have vla: "view s4 la = view s2 la" .
  have la_sa: "la < sa" using st1(4) st2(3) by simp
  have 1: "map_of (view s4 la) = map_of (view s DEFAULT_LOAD_ARGS) ++ given_args s largs"
    using vla st1(1) by simp
  have 2: "map_of (view s4 sa) = map_of (view s DEFAULT_SAVE_ARGS) ++ given_args s sargs"
    using st2(1) vS g2 by simp
  have 3: "view (exec e (Op_set_dict d es) s4) la = view s4 la \<and>
           view (exec e (Op_set_dict d es) s4) sa = view s4 sa"
    if "largs = Some d \<or> sargs = Some d" for d es
  proof -
    from that assms(3,4) have "d < next_addr s"
      by (auto simp: args_ok_def dict_ok_def allocated_def)
    with st1(3) la_sa have "d \<noteq> la" "d \<noteq> sa" by simp_all
    then show ?thesis by (simp add: view_def)
  qed
  from 1 2 3 show ?thesis unfolding self s' by blast
qed

theorem init_args_copied_counterexample:
  "fst (FileDataset_init [''data'', ''n.csv''] ''csv'' None None (Some 7) None None None
          (run env0 (take 1 nested_ops) state0)) = nested \<and>
   dicts (run env0 nested_ops state0) 7 = [(''sep'', 5), (''opts'', 6)] \<and>
   view (run env0 nested_ops state0) (load_args nested) =
     [(''sep'', PStr '',''), (''opts'', PDict [(''header'', PBool True)])] \<and>
   view (exec env0 (Op_set_obj 6 (PDict [(''header'', PBool False)]))
          (run env0 nested_ops state0)) (load_args nested) =
     [(''sep'', PStr '',''), (''opts'', PDict [(''header'', PBool False)])]"
  by code_simp

theorem init_args_copied_witness:
  "map_of (view (run env0 nested_ops state0) (load_args nested)) =
     map_of (view (run env0 (take 1 nested_ops) state0) DEFAULT_LOAD_ARGS) ++
     given_args (run env0 (take 1 nested_ops) state0) (Some 7) \<and>
   view (exec env0 (Op_set_dict 7 [(''sep'', 5)]) (run env0 nested_ops state0))
     (load_args nested) =
     [(''sep'', PStr '',''), (''opts'', PDict [(''header'', PBool True)])]"
proof -
  let ?s = "run env0 (take 1 nested_ops) state0"
  let ?s' = "run env0 nested_ops state0"
  have a1: "allocated ?s DEFAULT_LOAD_ARGS" by code_simp
  have a2: "allocated ?s DEFAULT_SAVE_ARGS" by code_simp
  have o1: "args_ok ?s (Some 7)" by code_simp
  have o2: "args_ok ?s None" by code_simp
  have f: "fst (FileDataset_init [''data'', ''n.csv''] ''csv'' None None (Some 7) None None None ?s)
      = nested" by code_simp
  have r: "snd (FileDataset_init [''data'', ''n.csv''] ''csv'' None None (Some 7) None None None ?s)
      = ?s'" by (simp add: nested_ops_def run_def)
  from f r have i: "FileDataset_init [''data'', ''n.csv''] ''csv'' None None (Some 7) None None
      None ?s = (nested, ?s')" by (metis prod.collapse)
  have v: "view ?s' (load_args nested) =
     [(''sep'', PStr '',''), (''opts'', PDict [(''header'', PBool True)])]" by code_simp
  from init_args_copied [OF a1 a2 o1 o2 i, of env0] v show ?thesis by simp
qed

text \<open>
  C6. \<open>load\<close> resolves the load path first and raises what the resolver raises (kedro's
  \<open>DatasetError\<close> when no version can be resolved) without doing anything else. Otherwise it
  takes the connection of the dataset and calls the method \<^verbatim>\<open>read_<file_format>\<close> of that
  connection with the resolved path, the table name and the stored load arguments as
  keyword arguments, and returns what the method returns (or raises).
\<close>

theorem load_calls_reader:
  "(get_load_path e (filepath self) (version self) (fs s) = Inl err \<longrightarrow>
      load e self s = (Inl err, s)) \<and>
   (get_load_path e (filepath self) (version self) (fs s) = Inr p \<and>
    connection e self s = (Inr h, s1) \<and>
    reader e h (''read_'' @ file_format self) = Some rd \<longrightarrow>
      load e self s =
        (rd p (table_name self) (view s1 (load_args self)) (fs s1),
         s1\<lparr>trace := trace s1 @
              [ReadCall h (''read_'' @ file_format self) p (table_name self)
                 (view s1 (load_args self))]\<rparr>))"
  by (simp add: load_def)

theorem load_calls_reader_witness:
  "load env0 cars state1 = (Inl DatasetError, state1) \<and>
   fst (load env0 cars (snd (save env0 cars 0 state1))) = Inr 0 \<and>
   trace (snd (load env0 cars (snd (save env0 cars 0 state1)))) =
     trace (snd (save env0 cars 0 state1)) @
       [ReadCall 10 ''read_csv'' [''data'', ''cars.csv''] (Some ''cars'') []]"
proof -
  let ?s = "snd (save env0 cars 0 state1)"
  have g0: "get_load_path env0 (filepath cars) (version cars) (fs state1) = Inl DatasetError"
    by code_simp
  have g: "get_load_path env0 (filepath cars) (version cars) (fs ?s) = Inr [''data'', ''cars.csv'']"
    by code_simp
  have "fst (connection env0 cars ?s) = Inr 10" by code_simp
  then have c: "connection env0 cars ?s = (Inr 10, snd (connection env0 cars ?s))"
    by (metis prod.collapse)
  have r: "reader env0 10 (''read_'' @ file_format cars) = Some (\<lambda>p t kw f. Inr 0)"
    by (simp add: env0_def cars_def FileDataset_init_def Let_def split: prod.splits)
  have t: "trace (snd (connection env0 cars ?s)) = trace ?s" by code_simp
  have tn: "table_name cars = Some ''cars''" by code_simp
  have ff: "''read_'' @ file_format cars = ''read_csv''" by code_simp
  have la: "view (snd (connection env0 cars ?s)) (load_args cars) = []" by code_simp
  from load_calls_reader [of env0 cars state1 DatasetError] g0
  have 1: "load env0 cars state1 = (Inl DatasetError, state1)" by simp
  from load_calls_reader [of env0 cars ?s _ "[''data'', ''cars.csv'']" 10
      "snd (connection env0 cars ?s)" "\<lambda>p t kw f. Inr 0"] g c r
  have "load env0 cars ?s =
      (Inr 0, snd (connection env0 cars ?s)
         \<lparr>trace := trace (snd (connection env0 cars ?s)) @
           [ReadCall 10 (''read_'' @ file_format cars) [''data'', ''cars.csv'']
              (table_name cars) (view (snd (connection env0 cars ?s)) (load_args cars))]\<rparr>)"
    by simp
  with 1 t tn ff la show ?thesis by simp
qed

text \<open>
  C7. \<open>save\<close> resolves the save path, then creates the parent directory of the resolved
  path with all its missing ancestors: this succeeds whether the directories exist or not,
  as long as no file stands in the way, and the parent is a directory afterwards. Then the
  method \<^verbatim>\<open>to_<file_format>\<close> of the connection is called, on the file system that now has
  the directory, with the data, the resolved path and the stored save arguments as keyword
  arguments. When the method returns, \<open>save\<close> returns no value; what it raises, \<open>save\<close>
  raises.
\<close>

theorem save_creates_parents:
  assumes "get_save_path e (filepath self) (version self) (fs s) = Inr p"
    and "no_file_on (fs s) (butlast p)"
  shows "(\<exists>f1. mkdir_parents (fs s) (butlast p) = Inr f1) \<and>
         (\<forall>f1 h s1 wr.
            mkdir_parents (fs s) (butlast p) = Inr f1 \<and>
            connection e self (s\<lparr>fs := f1, trace := trace s @ [Mkdir (butlast p)]\<rparr>) =
              (Inr h, s1) \<and>
            writer e h (''to_'' @ file_format self) = Some wr \<longrightarrow>
              fs_kind f1 (butlast p) = Some Dir \<and>
              (case wr data p (view s1 (save_args self)) f1 of
                 Inl err \<Rightarrow> fst (save e self data s) = Inl err
               | Inr f2 \<Rightarrow>
                   save e self data s =
                     (Inr (),
                      s1\<lparr>fs := f2,
                         trace := trace s1 @
                           [WriteCall h (''to_'' @ file_format self) data p
                              (view s1 (save_args self))]\<rparr>)))"
proof -
  from mkdir_parents_ok [OF assms(2)] obtain f0
    where m: "mkdir_parents (fs s) (butlast p) = Inr f0"
      and k: "fs_kind f0 (butlast p) = Some Dir" by blast
  have "fs_kind f1 (butlast p) = Some Dir \<and>
        (case wr data p (view s1 (save_args self)) f1 of
           Inl err \<Rightarrow> fst (save e self data s) = Inl err
         | Inr f2 \<Rightarrow>
             save e self data s =
               (Inr (),
                s1\<lparr>fs := f2,
                   trace := trace s1 @
                     [WriteCall h (''to_'' @ file_format self) data p
                        (view s1 (save_args self))]\<rparr>))"
    if a: "mkdir_parents (fs s) (butlast p) = Inr f1"
      and c: "connection e self (s\<lparr>fs := f1, trace := trace s @ [Mkdir (butlast p)]\<rparr>) =
              (Inr h, s1)"
      and w: "writer e h (''to_'' @ file_format self) = Some wr"
    for f1 h s1 wr
  proof -
    from a m have f1: "f1 = f0" by simp
    from connection_fs [OF c] have fs1: "fs s1 = f1" by simp
    from assms(1) a c w fs1 k f1 show ?thesis
      by (cases "wr data p (view s1 (save_args self)) f1") (simp_all add: save_def)
  qed
  with m show ?thesis by blast
qed

theorem save_creates_parents_witness:
  "no_file_on (fs state1) [''data''] \<and>
   fs state1 [''data''] = None \<and>
   fs_kind (projr (mkdir_parents (fs state1) [''data''])) [''data''] = Some Dir \<and>
   fst (save env0 cars 0 state1) = Inr () \<and>
   trace (snd (save env0 cars 0 state1)) =
     [Mkdir [''data''], Connect ''duckdb'' [(''database'', PStr '':memory:'')] 10,
      WriteCall 10 ''to_csv'' 0 [''data'', ''cars.csv''] []]"
proof -
  let ?p = "[''data'', ''cars.csv'']"
  let ?F = "projr (mkdir_parents (fs state1) [''data''])"
  let ?s0 = "state1\<lparr>fs := ?F, trace := trace state1 @ [Mkdir [''data'']]\<rparr>"
  let ?s1 = "snd (connection env0 cars ?s0)"
  let ?wr = "\<lambda>(t :: table) (p :: path) (kw :: item list) (f :: filesystem). Inr (f(p \<mapsto> File)) :: error + filesystem"
  have g: "get_save_path env0 (filepath cars) (version cars) (fs state1) = Inr ?p"
    by code_simp
  have nf: "no_file_on (fs state1) (butlast ?p)" by code_simp
  note th = save_creates_parents [OF g nf, of 0]
  from th obtain f1 where "mkdir_parents (fs state1) (butlast ?p) = Inr f1" by blast
  then have m: "mkdir_parents (fs state1) (butlast ?p) = Inr ?F" by simp
  have "fst (connection env0 cars ?s0) = Inr 10" by code_simp
  then have c: "connection env0 cars (state1\<lparr>fs := ?F,
      trace := trace state1 @ [Mkdir (butlast ?p)]\<rparr>) = (Inr 10, ?s1)"
    by (simp add: prod_eq_iff)
  have w: "writer env0 10 (''to_'' @ file_format cars) = Some ?wr"
    by (simp add: env0_def cars_def FileDataset_init_def Let_def split: prod.splits)
  from th m c w have k: "fs_kind ?F (butlast ?p) = Some Dir"
    and r: "(case ?wr 0 ?p (view ?s1 (save_args cars)) ?F of
                 Inl err \<Rightarrow> fst (save env0 cars 0 state1) = Inl err
               | Inr f2 \<Rightarrow>
                   save env0 cars 0 state1 =
                     (Inr (),
                      ?s1\<lparr>fs := f2,
                         trace := trace ?s1 @
                           [WriteCall 10 (''to_'' @ file_format cars) 0 ?p
                              (view ?s1 (save_args cars))]\<rparr>))"
    by blast+
  from r have sv: "save env0 cars 0 state1 =
       (Inr (), ?s1\<lparr>fs := ?F(?p \<mapsto> File),
                    trace := trace ?s1 @
                      [WriteCall 10 (''to_'' @ file_format cars) 0 ?p
                         (view ?s1 (save_args cars))]\<rparr>)"
    by simp
  have t1: "trace ?s1 = [Mkdir [''data''], Connect ''duckdb'' [(''database'', PStr '':memory:'')] 10]"
    by code_simp
  have ff: "''to_'' @ file_format cars = ''to_csv''" by code_simp
  have sa: "view ?s1 (save_args cars) = []" by code_simp
  have e: "fs state1 [''data''] = None" by code_simp
  from nf k sv t1 ff sa e show ?thesis by simp
qed

text \<open>
  C8. \<open>exists\<close> returns false, raising nothing and changing nothing, when the resolution of
  the load path fails with the versioning layer's \<open>DatasetError\<close>; when the resolution
  succeeds it returns whether the resolved path exists in the file system. \<open>load\<close> and
  \<open>save\<close> do not suppress that error: they raise it.
\<close>

theorem exists_suppresses_version_error:
  "(get_load_path e (filepath self) (version self) (fs s) = Inl DatasetError \<longrightarrow>
      exists_dataset e self s = (Inr False, s) \<and> load e self s = (Inl DatasetError, s)) \<and>
   (get_load_path e (filepath self) (version self) (fs s) = Inr p \<longrightarrow>
      exists_dataset e self s = (Inr (path_exists (fs s) p), s)) \<and>
   (get_save_path e (filepath self) (version self) (fs s) = Inl DatasetError \<longrightarrow>
      save e self data s = (Inl DatasetError, s))"
  by (simp add: exists_dataset_def load_def save_def)

theorem exists_suppresses_version_error_witness:
  "exists_dataset env0 cars state1 = (Inr False, state1) \<and>
   load env0 cars state1 = (Inl DatasetError, state1) \<and>
   fst (exists_dataset env0 cars (snd (save env0 cars 0 state1))) = Inr True \<and>
   save env_unresolved cars 0 state1 = (Inl DatasetError, state1)"
proof -
  let ?s = "snd (save env0 cars 0 state1)"
  have g0: "get_load_path env0 (filepath cars) (version cars) (fs state1) = Inl DatasetError"
    by code_simp
  have g: "get_load_path env0 (filepath cars) (version cars) (fs ?s) = Inr [''data'', ''cars.csv'']"
    by code_simp
  have gs: "get_save_path env_unresolved (filepath cars) (version cars) (fs state1) =
      Inl DatasetError" by code_simp
  have pe: "path_exists (fs ?s) [''data'', ''cars.csv'']" by code_simp
  from exists_suppresses_version_error [of env0 cars state1] g0
  have 1: "exists_dataset env0 cars state1 = (Inr False, state1)"
    and 2: "load env0 cars state1 = (Inl DatasetError, state1)" by simp_all
  from exists_suppresses_version_error [of env0 cars ?s "[''data'', ''cars.csv'']"] g pe
  have 3: "fst (exists_dataset env0 cars ?s) = Inr True" by simp
  from exists_suppresses_version_error [of env_unresolved cars state1 _ 0] gs
  have 4: "save env_unresolved cars 0 state1 = (Inl DatasetError, state1)" by simp
  from 1 2 3 4 show ?thesis by simp
qed

text \<open>
  C9. \<open>describe\<close> leaves the whole state as it is: no connection is made or looked up, the
  registry, the file system and the trace are untouched. When the configuration holds a
  backend identifier, the result is the mapping of exactly the seven entries of the
  static configuration.
\<close>

theorem describe_pure:
  "snd (describe self s) = s \<and>
   (map_of (view s (connection_config self)) ''backend'' = Some v \<longrightarrow>
      fst (describe self s) =
        Inr [(''filepath'', DPath (filepath self)),
             (''file_format'', DStr (file_format self)),
             (''table_name'', DOptStr (table_name self)),
             (''backend'', DVal v),
             (''load_args'', DDict (load_args self)),
             (''save_args'', DDict (save_args self)),
             (''version'', DVersion (version self))])"
  by (auto simp: describe_def map_of_view split: option.splits)

theorem describe_pure_witness:
  "map_of (view state1 (connection_config cars)) ''backend'' = Some (PStr ''duckdb'') \<and>
   describe cars state1 =
     (Inr [(''filepath'', DPath [''data'', ''cars.csv'']),
           (''file_format'', DStr ''csv''),
           (''table_name'', DOptStr (Some ''cars'')),
           (''backend'', DVal (PStr ''duckdb'')),
           (''load_args'', DDict 5),
           (''save_args'', DDict 6),
           (''version'', DVersion None)], state1)"
proof -
  have b: "map_of (view state1 (connection_config cars)) ''backend'' = Some (PStr ''duckdb'')"
    by code_simp
  have c: "cars = \<lparr>filepath = [''data'', ''cars.csv''], file_format = ''csv'',
      table_name = Some ''cars'', connection_config = 0, load_args = 5, save_args = 6,
      version = None, metadata = None\<rparr>" by code_simp
  from describe_pure [of cars state1 "PStr ''duckdb''"] b
  have "snd (describe cars state1) = state1" and "fst (describe cars state1) =
        Inr [(''filepath'', DPath (filepath cars)),
             (''file_format'', DStr (file_format cars)),
             (''table_name'', DOptStr (table_name cars)),
             (''backend'', DVal (PStr ''duckdb'')),
             (''load_args'', DDict (load_args cars)),
             (''save_args'', DDict (save_args cars)),
             (''version'', DVersion (version cars))]" by simp_all
  then have "describe cars state1 =
       (Inr [(''filepath'', DPath (filepath cars)),
             (''file_format'', DStr (file_format cars)),
             (''table_name'', DOptStr (table_name cars)),
             (''backend'', DVal (PStr ''duckdb'')),
             (''load_args'', DDict (load_args cars)),
             (''save_args'', DDict (save_args cars)),
             (''version'', DVersion (version cars))], state1)"
    by (metis prod.collapse)
  with b show ?thesis by (simp add: c)
qed

text \<open>
  C10. A dataset constructed without a connection argument (the argument is then \<^verbatim>\<open>None\<close>),
  or with an empty dict, holds the class's default configuration object, whose content
  is the DuckDB backend with an in-memory database; an empty mapping is not kept as a
  configuration of its own.
\<close>

theorem default_connection_config:
  assumes "conn = None \<or> (\<exists>c. conn = Some c \<and> dicts s c = [])"
    and "allocated s DEFAULT_CONNECTION_CONFIG"
    and "FileDataset_init fp fmt tn conn largs sargs ver meta s = (self, s')"
  shows "connection_config self = DEFAULT_CONNECTION_CONFIG \<and>
         view s' (connection_config self) = view s DEFAULT_CONNECTION_CONFIG \<and>
         view (class_state f) DEFAULT_CONNECTION_CONFIG =
           [(''backend'', PStr ''duckdb''), (''database'', PStr '':memory:'')]"
proof -
  from assms(1,3) have c: "connection_config self = DEFAULT_CONNECTION_CONFIG"
    by (auto simp: FileDataset_init_def Let_def split: prod.splits)
  from init_frame [OF assms(3)] assms(2)
  have "dicts s' DEFAULT_CONNECTION_CONFIG = dicts s DEFAULT_CONNECTION_CONFIG"
    and "\<forall>a < next_addr s. objs s' a = objs s a"
    by (simp_all add: allocated_def)
  from view_frame [OF assms(2) this]
  have "view s' DEFAULT_CONNECTION_CONFIG = view s DEFAULT_CONNECTION_CONFIG" .
  moreover have "view (class_state f) DEFAULT_CONNECTION_CONFIG =
           [(''backend'', PStr ''duckdb''), (''database'', PStr '':memory:'')]"
    by (simp add: view_def class_state_def)
  ultimately show ?thesis using c by simp
qed

theorem default_connection_config_witness:
  "dicts (run env0 [Op_new_dict []] state0) 5 = [] \<and>
   connection_config
     (fst (FileDataset_init [''data'', ''t.parquet''] ''parquet'' None (Some 5) None None None None
            (run env0 [Op_new_dict []] state0))) = DEFAULT_CONNECTION_CONFIG \<and>
   view (snd (FileDataset_init [''data'', ''t.parquet''] ''parquet'' None (Some 5) None None None
                None (run env0 [Op_new_dict []] state0)))
        DEFAULT_CONNECTION_CONFIG =
     [(''backend'', PStr ''duckdb''), (''database'', PStr '':memory:'')]"
proof -
  let ?s = "run env0 [Op_new_dict []] state0"
  let ?i = "FileDataset_init [''data'', ''t.parquet''] ''parquet'' None (Some 5) None None None
              None ?s"
  have e: "dicts ?s 5 = []" by code_simp
  then have c: "Some 5 = None \<or> (\<exists>c. Some 5 = Some c \<and> dicts ?s c = [])" by simp
  have a: "allocated ?s DEFAULT_CONNECTION_CONFIG" by code_simp
  have i: "?i = (fst ?i, snd ?i)" by simp
  have v: "view ?s DEFAULT_CONNECTION_CONFIG =
     [(''backend'', PStr ''duckdb''), (''database'', PStr '':memory:'')]" by code_simp
  note th = default_connection_config [OF c a i, of Map.empty]
  from th have cc: "connection_config (fst ?i) = DEFAULT_CONNECTION_CONFIG" by (rule conjunct1)
  from th have "view (snd ?i) (connection_config (fst ?i)) = view ?s DEFAULT_CONNECTION_CONFIG"
    by (elim conjE)
  then have "view (snd ?i) DEFAULT_CONNECTION_CONFIG = view ?s DEFAULT_CONNECTION_CONFIG"
    unfolding cc .
  with e cc v show ?thesis by simp
qed

end
